theory Spec2Isabelle
  imports Main
begin

section \<open>JavaScript strings\<close>

text \<open>
  A JavaScript string is a sequence of UTF-16 code units; \<open>match.index\<close>,
  \<open>lastIndex\<close> and the offsets of a text document all count code units. A code unit is
  modelled by its number, a string by the list of its code units. \<open>str\<close> turns an ASCII
  literal into such a list.
\<close>

type_synonym code_unit = nat
type_synonym jstring = "code_unit list"

abbreviation str :: "string \<Rightarrow> jstring" where
  "str s \<equiv> map of_char s"

text \<open>The decimal digits of a number, as a template literal \<open>`${n}`\<close> prints an integer.\<close>

function number_toString :: "nat \<Rightarrow> jstring" where
  "number_toString n =
     (if n < 10 then [48 + n] else number_toString (n div 10) @ [48 + n mod 10])"
  by pat_completeness auto
termination
proof (relation "measure (\<lambda>n. n)")
  show "wf (measure (\<lambda>n::nat. n))" by simp
next
  fix n :: nat
  assume "\<not> n < 10"
  then have "n div 10 < n" by (simp add: div_less_dividend)
  then show "(n div 10, n) \<in> measure (\<lambda>n. n)" by simp
qed

declare number_toString.simps [simp del]

section \<open>The message identifier\<close>

text \<open>
  \<^verbatim>\<open>
  let ipcSequence = 0;
  function nextIpcId() {
      if (ipcSequence === Number.MAX_SAFE_INTEGER) { ipcSequence = 1; } else { ipcSequence++; }
      return `host:${ipcSequence}`;
  }
  \<close>
  The module variable is passed in and returned. Up to \<open>MAX_SAFE_INTEGER\<close> the
  increment of a JavaScript number is exact, so the counter is a natural number.
\<close>

definition MAX_SAFE_INTEGER :: nat where
  "MAX_SAFE_INTEGER = 2 ^ 53 - 1"

definition nextIpcId :: "nat \<Rightarrow> jstring \<times> nat" where
  "nextIpcId ipcSequence =
     (let ipcSequence' = (if ipcSequence = MAX_SAFE_INTEGER then 1 else ipcSequence + 1)
      in (str ''host:'' @ number_toString ipcSequence', ipcSequence'))"

text \<open>The value of \<open>ipcSequence\<close> after \<open>n\<close> calls, starting from the initial 0.\<close>

fun ipcSequence_after :: "nat \<Rightarrow> nat" where
  "ipcSequence_after 0 = 0"
| "ipcSequence_after (Suc n) = snd (nextIpcId (ipcSequence_after n))"

section \<open>The regular expressions\<close>

subsection \<open>Character classes\<close>

text \<open>
  \<open>\s\<close> is the white space and the line terminators of ECMAScript; \<open>.\<close> is every code
  unit but a line terminator; with the flag \<open>m\<close>, \<open>^\<close> holds at the start of the input and
  after a line terminator, \<open>$\<close> at the end of the input and before a line terminator.
\<close>

definition is_line_terminator :: "code_unit \<Rightarrow> bool" where
  "is_line_terminator c \<longleftrightarrow> c = 10 \<or> c = 13 \<or> c = 8232 \<or> c = 8233"

definition is_white_space :: "code_unit \<Rightarrow> bool" where
  "is_white_space c \<longleftrightarrow>
     c = 9 \<or> c = 11 \<or> c = 12 \<or> c = 32 \<or> c = 160 \<or> c = 5760 \<or> (8192 \<le> c \<and> c \<le> 8202) \<or>
     c = 8239 \<or> c = 8287 \<or> c = 12288 \<or> c = 65279 \<or> is_line_terminator c"

definition is_dot :: "code_unit \<Rightarrow> bool" where
  "is_dot c \<longleftrightarrow> \<not> is_line_terminator c"

text \<open>\<open>[0-9a-f]\<close>, and the same class under the flag \<open>i\<close>.\<close>

definition is_hex :: "code_unit \<Rightarrow> bool" where
  "is_hex c \<longleftrightarrow> (48 \<le> c \<and> c \<le> 57) \<or> (97 \<le> c \<and> c \<le> 102)"

definition is_hex_i :: "code_unit \<Rightarrow> bool" where
  "is_hex_i c \<longleftrightarrow> is_hex c \<or> (65 \<le> c \<and> c \<le> 70)"

text \<open>
  The canonical form of a code unit under the flag \<open>i\<close> (without \<open>u\<close>): its upper case,
  except that a code unit outside ASCII never becomes an ASCII one. The patterns here hold
  ASCII literals only, so the upper case of the ASCII letters is all that matters.
\<close>

definition canonicalize :: "code_unit \<Rightarrow> code_unit" where
  "canonicalize c = (if 97 \<le> c \<and> c \<le> 122 then c - 32 else c)"

subsection \<open>A backtracking matcher\<close>

text \<open>
  The matcher follows the ECMAScript semantics: every piece of a pattern takes the rest of
  the input and a continuation, the rest of the pattern; it tries its alternatives in the
  order of their priority and yields the first that lets the continuation succeed.
\<close>

fun first_some :: "('a \<Rightarrow> 'b option) \<Rightarrow> 'a list \<Rightarrow> 'b option" where
  "first_some f [] = None"
| "first_some f (x # xs) = (case f x of Some y \<Rightarrow> Some y | None \<Rightarrow> first_some f xs)"

text \<open>One code unit of a class.\<close>

definition re_class :: "(code_unit \<Rightarrow> bool) \<Rightarrow> jstring \<Rightarrow> (jstring \<Rightarrow> 'a option) \<Rightarrow> 'a option" where
  "re_class P r k = (case r of [] \<Rightarrow> None | c # r' \<Rightarrow> if P c then k r' else None)"

text \<open>\<open>c?\<close>: greedy, one code unit of the class first, none after that.\<close>

definition re_opt :: "(code_unit \<Rightarrow> bool) \<Rightarrow> jstring \<Rightarrow> (jstring \<Rightarrow> 'a option) \<Rightarrow> 'a option" where
  "re_opt P r k =
     (case re_class P r k of Some y \<Rightarrow> Some y | None \<Rightarrow> k r)"

text \<open>A literal, compared as it is, or in canonical form under the flag \<open>i\<close>.\<close>

definition re_lit :: "jstring \<Rightarrow> jstring \<Rightarrow> (jstring \<Rightarrow> 'a option) \<Rightarrow> 'a option" where
  "re_lit w r k = (if take (length w) r = w then k (drop (length w) r) else None)"

definition re_lit_i :: "jstring \<Rightarrow> jstring \<Rightarrow> (jstring \<Rightarrow> 'a option) \<Rightarrow> 'a option" where
  "re_lit_i w r k =
     (if length w \<le> length r \<and> map canonicalize (take (length w) r) = map canonicalize w
      then k (drop (length w) r) else None)"

text \<open>A capturing group of literal alternatives \<open>(a|b|...)\<close>, tried from left to right.\<close>

definition re_alt :: "jstring list \<Rightarrow> jstring \<Rightarrow> (jstring \<Rightarrow> jstring \<Rightarrow> 'a option) \<Rightarrow> 'a option" where
  "re_alt ws r k = first_some (\<lambda>w. re_lit w r (k w)) ws"

text \<open>
  A capturing group \<open>(c+?)\<close>: lazy, so after each code unit of the class the continuation
  is tried before a further code unit is taken. \<open>acc\<close> is what the group holds so far.
\<close>

fun re_plus_lazy ::
  "(code_unit \<Rightarrow> bool) \<Rightarrow> jstring \<Rightarrow> jstring \<Rightarrow> (jstring \<Rightarrow> jstring \<Rightarrow> 'a option) \<Rightarrow> 'a option" where
  "re_plus_lazy P acc [] k = None"
| "re_plus_lazy P acc (c # r) k =
     (if P c
      then (case k (acc @ [c]) r of Some y \<Rightarrow> Some y | None \<Rightarrow> re_plus_lazy P (acc @ [c]) r k)
      else None)"

text \<open>
  A capturing group \<open>(c*)\<close>: greedy, so a further code unit of the class is taken first
  and the continuation is tried on what is left only when that fails.
\<close>

fun re_star_greedy ::
  "(code_unit \<Rightarrow> bool) \<Rightarrow> jstring \<Rightarrow> jstring \<Rightarrow> (jstring \<Rightarrow> jstring \<Rightarrow> 'a option) \<Rightarrow> 'a option" where
  "re_star_greedy P acc [] k = k acc []"
| "re_star_greedy P acc (c # r) k =
     (if P c
      then (case re_star_greedy P (acc @ [c]) r k of Some y \<Rightarrow> Some y | None \<Rightarrow> k acc (c # r))
      else k acc (c # r))"

text \<open>\<open>^\<close> at index \<open>i\<close> of the input and \<open>$\<close> before the rest \<open>r\<close>, under the flag \<open>m\<close>.\<close>

definition re_bol :: "jstring \<Rightarrow> nat \<Rightarrow> bool" where
  "re_bol s i \<longleftrightarrow> i = 0 \<or> (i \<le> length s \<and> is_line_terminator (s ! (i - 1)))"

definition re_eol :: "jstring \<Rightarrow> bool" where
  "re_eol r \<longleftrightarrow> (case r of [] \<Rightarrow> True | c # _ \<Rightarrow> is_line_terminator c)"

text \<open>
  The result of a match: the index where it starts and the array of the matched text
  followed by the captures.
\<close>

record regex_match =
  m_index :: nat
  m_array :: "jstring list"

definition matched :: "jstring \<Rightarrow> nat \<Rightarrow> jstring \<Rightarrow> jstring" where
  "matched s i r = take (length s - i - length r) (drop i s)"

definition m_end :: "regex_match \<Rightarrow> nat" where
  "m_end m = m_index m + length (hd (m_array m))"

subsection \<open>The two patterns\<close>

text \<open>
  \<^verbatim>\<open>const rebaseRegex = /^\s?#\s?Rebase\s([0-9a-f]+?)..([0-9a-f]+?)\sonto\s([0-9a-f]+?)\s.*$/gim;\<close>
  matched at index \<open>i\<close> of \<open>s\<close>.
\<close>

definition rebaseRegex :: "jstring \<Rightarrow> nat \<Rightarrow> regex_match option" where
  "rebaseRegex s i =
     (if \<not> re_bol s i then None else
      re_opt is_white_space (drop i s) (\<lambda>r.
      re_lit_i (str ''#'') r (\<lambda>r.
      re_opt is_white_space r (\<lambda>r.
      re_lit_i (str ''Rebase'') r (\<lambda>r.
      re_class is_white_space r (\<lambda>r.
      re_plus_lazy is_hex_i [] r (\<lambda>from r.
      re_class is_dot r (\<lambda>r.
      re_class is_dot r (\<lambda>r.
      re_plus_lazy is_hex_i [] r (\<lambda>to r.
      re_class is_white_space r (\<lambda>r.
      re_lit_i (str ''onto'') r (\<lambda>r.
      re_class is_white_space r (\<lambda>r.
      re_plus_lazy is_hex_i [] r (\<lambda>onto r.
      re_class is_white_space r (\<lambda>r.
      re_star_greedy is_dot [] r (\<lambda>_ r.
      if re_eol r
      then Some \<lparr>m_index = i, m_array = [matched s i r, from, to, onto]\<rparr>
      else None))))))))))))))))"

text \<open>
  \<^verbatim>\<open>const rebaseCommandsRegex = /^\s?(p|pick|r|reword|e|edit|s|squash|f|fixup|b|break|d|drop)\s([0-9a-f]+?)\s(.*)$/gm;\<close>
\<close>

definition command_tokens :: "jstring list" where
  "command_tokens =
     [str ''p'', str ''pick'', str ''r'', str ''reword'', str ''e'', str ''edit'',
      str ''s'', str ''squash'', str ''f'', str ''fixup'', str ''b'', str ''break'',
      str ''d'', str ''drop'']"

definition rebaseCommandsRegex :: "jstring \<Rightarrow> nat \<Rightarrow> regex_match option" where
  "rebaseCommandsRegex s i =
     (if \<not> re_bol s i then None else
      re_opt is_white_space (drop i s) (\<lambda>r.
      re_alt command_tokens r (\<lambda>action r.
      re_class is_white_space r (\<lambda>r.
      re_plus_lazy is_hex [] r (\<lambda>ref r.
      re_class is_white_space r (\<lambda>r.
      re_star_greedy is_dot [] r (\<lambda>message r.
      if re_eol r
      then Some \<lparr>m_index = i, m_array = [matched s i r, action, ref, message]\<rparr>
      else None)))))))"

subsection \<open>\<open>exec\<close> on a global pattern\<close>

text \<open>
  \<open>RegExp.prototype.exec\<close> with the flag \<open>g\<close> starts at the pattern's \<open>lastIndex\<close>,
  tries every index from there to the length of the input, and on a match sets
  \<open>lastIndex\<close> to the end of the match; when nothing matches it returns \<open>null\<close> and sets
  \<open>lastIndex\<close> to 0. The result is the match and the new \<open>lastIndex\<close>.
\<close>

definition regex_exec ::
  "(jstring \<Rightarrow> nat \<Rightarrow> regex_match option) \<Rightarrow> jstring \<Rightarrow> nat \<Rightarrow> regex_match option \<times> nat" where
  "regex_exec re s lastIndex =
     (case first_some (re s) [lastIndex ..< Suc (length s)] of
        None \<Rightarrow> (None, 0)
      | Some m \<Rightarrow> (Some m, m_end m))"

subsection \<open>What a match of a pattern looks like\<close>

lemma first_some_SomeD:
  "first_some f xs = Some y \<Longrightarrow> \<exists>x\<in>set xs. f x = Some y"
  by (induction xs) (auto split: option.splits)

lemma first_some_None_iff:
  "first_some f xs = None \<longleftrightarrow> (\<forall>x\<in>set xs. f x = None)"
  by (induction xs) (auto split: option.splits)

lemma re_class_SomeD:
  "re_class P r k = Some y \<Longrightarrow> \<exists>c r'. r = c # r' \<and> P c \<and> k r' = Some y"
  by (cases r) (auto simp: re_class_def split: if_splits)

lemma re_opt_SomeD:
  "re_opt P r k = Some y \<Longrightarrow>
     (\<exists>c r'. r = c # r' \<and> P c \<and> k r' = Some y) \<or> k r = Some y"
  by (auto simp: re_opt_def split: option.splits dest: re_class_SomeD)

lemma re_lit_SomeD:
  "re_lit w r k = Some y \<Longrightarrow> \<exists>r'. r = w @ r' \<and> k r' = Some y"
proof -
  assume a: "re_lit w r k = Some y"
  then have t: "take (length w) r = w" and k: "k (drop (length w) r) = Some y"
    by (auto simp: re_lit_def split: if_splits)
  have "r = take (length w) r @ drop (length w) r" by simp
  with t have "r = w @ drop (length w) r" by simp
  with k show ?thesis by blast
qed

lemma re_alt_SomeD:
  "re_alt ws r k = Some y \<Longrightarrow> \<exists>w\<in>set ws. \<exists>r'. r = w @ r' \<and> k w r' = Some y"
  unfolding re_alt_def by (blast dest: first_some_SomeD re_lit_SomeD)

lemma re_plus_lazy_SomeD:
  "re_plus_lazy P acc r k = Some y \<Longrightarrow>
     \<exists>g r'. r = g @ r' \<and> g \<noteq> [] \<and> (\<forall>c\<in>set g. P c) \<and> k (acc @ g) r' = Some y"
proof (induction r arbitrary: acc)
  case Nil
  then show ?case by simp
next
  case (Cons c r)
  from Cons.prems have c: "P c" by (simp split: if_splits)
  show ?case
  proof (cases "k (acc @ [c]) r")
    case (Some z)
    with Cons.prems c have "k (acc @ [c]) r = Some y" by simp
    with c show ?thesis by (intro exI [of _ "[c]"] exI [of _ r]) simp
  next
    case None
    with Cons.prems c have "re_plus_lazy P (acc @ [c]) r k = Some y" by simp
    from Cons.IH [OF this] obtain g r' where
      g: "r = g @ r'" "\<forall>c\<in>set g. P c" "k ((acc @ [c]) @ g) r' = Some y"
      by blast
    with c show ?thesis by (intro exI [of _ "c # g"] exI [of _ r']) simp
  qed
qed

lemma re_star_greedy_SomeD:
  "re_star_greedy P acc r k = Some y \<Longrightarrow>
     \<exists>g r'. r = g @ r' \<and> (\<forall>c\<in>set g. P c) \<and> k (acc @ g) r' = Some y"
proof (induction r arbitrary: acc)
  case Nil
  then show ?case by simp
next
  case (Cons c r)
  show ?case
  proof (cases "P c \<and> re_star_greedy P (acc @ [c]) r k \<noteq> None")
    case True
    with Cons.prems have "re_star_greedy P (acc @ [c]) r k = Some y" by auto
    from Cons.IH [OF this] obtain g r' where
      g: "r = g @ r'" "\<forall>c\<in>set g. P c" "k ((acc @ [c]) @ g) r' = Some y"
      by blast
    with True show ?thesis by (intro exI [of _ "c # g"] exI [of _ r']) simp
  next
    case False
    with Cons.prems have "k acc (c # r) = Some y" by (auto split: if_splits)
    then show ?thesis by (intro exI [of _ "[]"] exI [of _ "c # r"]) simp
  qed
qed

lemma re_plus_lazy_Nil_SomeD:
  "re_plus_lazy P [] r k = Some y \<Longrightarrow>
     \<exists>g r'. r = g @ r' \<and> g \<noteq> [] \<and> (\<forall>c\<in>set g. P c) \<and> k g r' = Some y"
  using re_plus_lazy_SomeD [of P "[]" r k y] by simp

lemma re_star_greedy_Nil_SomeD:
  "re_star_greedy P [] r k = Some y \<Longrightarrow>
     \<exists>g r'. r = g @ r' \<and> (\<forall>c\<in>set g. P c) \<and> k g r' = Some y"
  using re_star_greedy_SomeD [of P "[]" r k y] by simp

lemma matched_append:
  "drop i s = x @ r \<Longrightarrow> matched s i r = x"
proof -
  assume d: "drop i s = x @ r"
  then have "length s - i = length x + length r"
    by (metis length_append length_drop)
  with d show ?thesis by (simp add: matched_def)
qed

text \<open>
  A match of \<open>rebaseCommandsRegex\<close> at \<open>i\<close> is an optional white space, one of the command
  words, a white space, a run of hexadecimal digits, a white space and a run of code
  units that are no line terminators, up to the end of a line.
\<close>

lemma rebaseCommandsRegex_SomeD:
  assumes "rebaseCommandsRegex s i = Some m"
  shows "\<exists>lead action w1 ref w2 message rest.
           re_bol s i \<and>
           drop i s = lead @ action @ [w1] @ ref @ [w2] @ message @ rest \<and>
           (lead = [] \<or> (\<exists>c. lead = [c] \<and> is_white_space c)) \<and>
           action \<in> set command_tokens \<and> is_white_space w1 \<and>
           ref \<noteq> [] \<and> (\<forall>c\<in>set ref. is_hex c) \<and> is_white_space w2 \<and>
           (\<forall>c\<in>set message. is_dot c) \<and> re_eol rest \<and>
           m = \<lparr>m_index = i,
                m_array = [lead @ action @ [w1] @ ref @ [w2] @ message, action, ref, message]\<rparr>"
proof -
  from assms have bol: "re_bol s i"
    by (auto simp: rebaseCommandsRegex_def split: if_splits)
  define K where "K = (\<lambda>r.
      re_alt command_tokens r (\<lambda>action r.
      re_class is_white_space r (\<lambda>r.
      re_plus_lazy is_hex [] r (\<lambda>ref r.
      re_class is_white_space r (\<lambda>r.
      re_star_greedy is_dot [] r (\<lambda>message r.
      if re_eol r
      then Some \<lparr>m_index = i, m_array = [matched s i r, action, ref, message]\<rparr>
      else None))))))"
  from assms bol have "re_opt is_white_space (drop i s) K = Some m"
    by (simp add: rebaseCommandsRegex_def K_def)
  from re_opt_SomeD [OF this] consider
      (one) c r' where "drop i s = c # r'" "is_white_space c" "K r' = Some m"
    | (none) "K (drop i s) = Some m"
    by blast
  then obtain lead r1 where lead: "drop i s = lead @ r1"
    "lead = [] \<or> (\<exists>c. lead = [c] \<and> is_white_space c)" and k1: "K r1 = Some m"
  proof cases
    case one
    then show ?thesis using that [of "[c]" r'] by simp
  next
    case none
    then show ?thesis using that [of "[]" "drop i s"] by simp
  qed
  from k1 [unfolded K_def] obtain action r2 where
    a: "action \<in> set command_tokens" "r1 = action @ r2" and
    k2: "re_class is_white_space r2 (\<lambda>r.
      re_plus_lazy is_hex [] r (\<lambda>ref r.
      re_class is_white_space r (\<lambda>r.
      re_star_greedy is_dot [] r (\<lambda>message r.
      if re_eol r
      then Some \<lparr>m_index = i, m_array = [matched s i r, action, ref, message]\<rparr>
      else None)))) = Some m"
    by (blast dest: re_alt_SomeD)
  from re_class_SomeD [OF k2] obtain w1 r3 where
    w1: "r2 = w1 # r3" "is_white_space w1" and
    k3: "re_plus_lazy is_hex [] r3 (\<lambda>ref r.
      re_class is_white_space r (\<lambda>r.
      re_star_greedy is_dot [] r (\<lambda>message r.
      if re_eol r
      then Some \<lparr>m_index = i, m_array = [matched s i r, action, ref, message]\<rparr>
      else None))) = Some m"
    by blast
  from re_plus_lazy_Nil_SomeD [OF k3] obtain ref r4 where
    r: "r3 = ref @ r4" "ref \<noteq> []" "\<forall>c\<in>set ref. is_hex c" and
    k4: "re_class is_white_space r4 (\<lambda>r.
      re_star_greedy is_dot [] r (\<lambda>message r.
      if re_eol r
      then Some \<lparr>m_index = i, m_array = [matched s i r, action, ref, message]\<rparr>
      else None)) = Some m"
    by auto
  from re_class_SomeD [OF k4] obtain w2 r5 where
    w2: "r4 = w2 # r5" "is_white_space w2" and
    k5: "re_star_greedy is_dot [] r5 (\<lambda>message r.
      if re_eol r
      then Some \<lparr>m_index = i, m_array = [matched s i r, action, ref, message]\<rparr>
      else None) = Some m"
    by blast
  from re_star_greedy_Nil_SomeD [OF k5] obtain message rest where
    msg: "r5 = message @ rest" "\<forall>c\<in>set message. is_dot c" and
    k6: "(if re_eol rest
      then Some \<lparr>m_index = i, m_array = [matched s i rest, action, ref, message]\<rparr>
      else None) = Some m"
    by auto
  from k6 have eol: "re_eol rest" and
    m: "m = \<lparr>m_index = i, m_array = [matched s i rest, action, ref, message]\<rparr>"
    by (auto split: if_splits)
  from lead a w1 r w2 msg have d:
    "drop i s = (lead @ action @ [w1] @ ref @ [w2] @ message) @ rest"
    by simp
  from matched_append [OF d] m have
    "m = \<lparr>m_index = i,
          m_array = [lead @ action @ [w1] @ ref @ [w2] @ message, action, ref, message]\<rparr>"
    by simp
  with bol d lead a w1 r w2 msg eol show ?thesis
    by (intro exI conjI) (assumption | simp)+
qed

text \<open>A match is not empty and ends inside the input, so \<open>exec\<close> moves \<open>lastIndex\<close> on.\<close>

lemma rebaseCommandsRegex_bounds:
  assumes "rebaseCommandsRegex s i = Some m"
  shows "m_index m = i \<and> i < m_end m \<and> m_end m \<le> length s \<and> length (m_array m) = 4"
proof -
  from rebaseCommandsRegex_SomeD [OF assms] obtain x action ref message rest where
    d: "drop i s = x @ rest" and x: "x \<noteq> []" and
    m: "m = \<lparr>m_index = i, m_array = [x, action, ref, message]\<rparr>"
    by (metis append.assoc append_is_Nil_conv not_Cons_self2)
  from d have "length s - i = length x + length rest"
    by (metis length_append length_drop)
  with x m show ?thesis by (cases x) (auto simp: m_end_def)
qed

lemma regex_exec_SomeD:
  "regex_exec re s lastIndex = (Some m, lastIndex') \<Longrightarrow>
     \<exists>i. lastIndex \<le> i \<and> i \<le> length s \<and> re s i = Some m \<and> lastIndex' = m_end m"
proof -
  assume a: "regex_exec re s lastIndex = (Some m, lastIndex')"
  then have f: "first_some (re s) [lastIndex ..< Suc (length s)] = Some m" and
    l: "lastIndex' = m_end m"
    by (auto simp: regex_exec_def simp del: upt_Suc split: option.splits)
  from first_some_SomeD [OF f] obtain i where
    "i \<in> set [lastIndex ..< Suc (length s)]" "re s i = Some m"
    by blast
  with l show ?thesis by (intro exI [of _ i]) auto
qed

lemma regex_exec_None:
  "regex_exec re s lastIndex = (None, lastIndex') \<Longrightarrow> lastIndex' = 0"
  by (auto simp: regex_exec_def split: option.splits)

lemma rebaseCommandsRegex_exec_progress:
  assumes "regex_exec rebaseCommandsRegex s lastIndex = (Some m, lastIndex')"
  shows "lastIndex < lastIndex' \<and> lastIndex' \<le> length s"
proof -
  from regex_exec_SomeD [OF assms] obtain i where
    i: "lastIndex \<le> i" "rebaseCommandsRegex s i = Some m" "lastIndex' = m_end m"
    by blast
  from rebaseCommandsRegex_bounds [OF i(2)] i show ?thesis by simp
qed

section \<open>The text document of the editor\<close>

text \<open>
  The editor keeps a document as its lines and one end-of-line sequence; a line holds
  neither a carriage return nor a line feed. \<open>getText\<close> joins the lines, and an edit
  splits the text it inserts at \<open>\r\n\<close>, \<open>\r\<close> and \<open>\n\<close>. A document has at least one
  line, and no string is longer than \<open>2^53 - 1\<close> code units; \<open>valid_document\<close> says so.
\<close>

datatype end_of_line = LF | CRLF

record text_document =
  doc_lines :: "jstring list"
  doc_eol :: end_of_line

definition valid_document :: "text_document \<Rightarrow> bool" where
  "valid_document document \<longleftrightarrow>
     doc_lines document \<noteq> [] \<and>
     list_all (\<lambda>l. 10 \<notin> set l \<and> 13 \<notin> set l \<and> length l \<le> 2 ^ 53 - 1) (doc_lines document)"

definition eol_string :: "end_of_line \<Rightarrow> jstring" where
  "eol_string e = (case e of LF \<Rightarrow> [10] | CRLF \<Rightarrow> [13, 10])"

fun join_lines :: "jstring \<Rightarrow> jstring list \<Rightarrow> jstring" where
  "join_lines e [] = []"
| "join_lines e [l] = l"
| "join_lines e (l # l' # ls) = l @ e @ join_lines e (l' # ls)"

fun split_lines :: "jstring \<Rightarrow> jstring list" where
  "split_lines [] = [[]]"
| "split_lines (c # cs) =
     (if c = 10 then [] # split_lines cs
      else if c = 13 then
        (case cs of
           [] \<Rightarrow> [[], []]
         | d # cs' \<Rightarrow> if d = 10 then [] # split_lines cs' else [] # split_lines cs)
      else (case split_lines cs of [] \<Rightarrow> [[c]] | l # ls \<Rightarrow> (c # l) # ls))"

definition getText :: "text_document \<Rightarrow> jstring" where
  "getText document = join_lines (eol_string (doc_eol document)) (doc_lines document)"

definition lineCount :: "text_document \<Rightarrow> nat" where
  "lineCount document = length (doc_lines document)"

datatype position = Position (line: nat) (character: nat)

datatype range = Range (range_start: position) (range_end: position)

datatype error = IllegalArgument

text \<open>\<open>new Position(line, character)\<close> throws when an argument is negative.\<close>

definition new_Position :: "int \<Rightarrow> int \<Rightarrow> error + position" where
  "new_Position l c = (if l < 0 \<or> c < 0 then Inl IllegalArgument else Inr (Position (nat l) (nat c)))"

definition isBefore :: "position \<Rightarrow> position \<Rightarrow> bool" where
  "isBefore a b \<longleftrightarrow> line a < line b \<or> (line a = line b \<and> character a < character b)"

text \<open>\<open>new Range(start, end)\<close> puts the two positions in order.\<close>

definition new_Range :: "position \<Rightarrow> position \<Rightarrow> range" where
  "new_Range a b = (if isBefore a b then Range a b else Range b a)"

text \<open>
  \<open>positionAt(offset)\<close>: every line takes its length and the length of the end-of-line
  sequence; the offset falls into the first line whose span it does not exceed, or into
  the last line, and the character is cut to the length of the line.
\<close>

fun positionAt_lines :: "nat \<Rightarrow> jstring list \<Rightarrow> nat \<Rightarrow> nat \<Rightarrow> position" where
  "positionAt_lines e [] n offset = Position n 0"
| "positionAt_lines e [l] n offset = Position n (min offset (length l))"
| "positionAt_lines e (l # l' # ls) n offset =
     (if offset < length l + e then Position n (min offset (length l))
      else positionAt_lines e (l' # ls) (Suc n) (offset - (length l + e)))"

definition positionAt :: "text_document \<Rightarrow> nat \<Rightarrow> position" where
  "positionAt document offset =
     positionAt_lines (length (eol_string (doc_eol document))) (doc_lines document) 0 offset"

text \<open>\<open>validatePosition\<close> and \<open>validateRange\<close> cut a position to the document.\<close>

definition validatePosition :: "text_document \<Rightarrow> position \<Rightarrow> position" where
  "validatePosition document p =
     (if doc_lines document = [] then Position 0 0
      else if line p \<ge> length (doc_lines document)
      then Position (length (doc_lines document) - 1) (length (last (doc_lines document)))
      else Position (line p) (min (character p) (length (doc_lines document ! line p))))"

definition validateRange :: "text_document \<Rightarrow> range \<Rightarrow> range" where
  "validateRange document r =
     Range (validatePosition document (range_start r)) (validatePosition document (range_end r))"

text \<open>
  A \<open>WorkspaceEdit\<close> on one document is a list of text edits: \<open>replace(range, text)\<close>,
  \<open>delete(range)\<close> and \<open>insert(position, text)\<close>.
\<close>

datatype text_edit = TextEdit (edit_range: range) (newText: jstring)

definition edit_replace :: "range \<Rightarrow> jstring \<Rightarrow> text_edit" where
  "edit_replace r t = TextEdit r t"

definition edit_delete :: "range \<Rightarrow> text_edit" where
  "edit_delete r = TextEdit r []"

definition edit_insert :: "position \<Rightarrow> jstring \<Rightarrow> text_edit" where
  "edit_insert p t = TextEdit (Range p p) t"

text \<open>
  One edit on the lines: what is left of the first line of the range, the new text and
  what is left of the last line are put together and split into lines again.
\<close>

definition apply_text_edit :: "text_document \<Rightarrow> text_edit \<Rightarrow> text_document" where
  "apply_text_edit document e =
     (let r = validateRange document (edit_range e);
          l1 = line (range_start r); c1 = character (range_start r);
          l2 = line (range_end r); c2 = character (range_end r);
          ls = doc_lines document
      in document\<lparr>doc_lines :=
           take l1 ls @ split_lines (take c1 (ls ! l1) @ newText e @ drop c2 (ls ! l2)) @
           drop (Suc l2) ls\<rparr>)"

text \<open>
  \<open>workspace.applyEdit\<close>: the ranges of all edits are read against the document as it is;
  edits whose ranges overlap are refused and leave the document as it is; the others
  are applied from the end of the document to its start.
\<close>

fun insert_edit :: "text_edit \<Rightarrow> text_edit list \<Rightarrow> text_edit list" where
  "insert_edit e [] = [e]"
| "insert_edit e (x # xs) =
     (if isBefore (range_start (edit_range x)) (range_start (edit_range e))
      then e # x # xs else x # insert_edit e xs)"

fun overlapping :: "text_edit list \<Rightarrow> bool" where
  "overlapping (a # b # es) \<longleftrightarrow>
     isBefore (range_start (edit_range a)) (range_end (edit_range b)) \<or> overlapping (b # es)"
| "overlapping _ \<longleftrightarrow> False"

definition applyEdit :: "text_document \<Rightarrow> text_edit list \<Rightarrow> text_document" where
  "applyEdit document edits =
     (let es = foldr insert_edit
                 (map (\<lambda>e. TextEdit (validateRange document (edit_range e)) (newText e)) edits) []
      in if overlapping es then document else foldl apply_text_edit document es)"

section \<open>The rebase editor\<close>

subsection \<open>The state of the module and the collaborators\<close>

text \<open>
  The handlers are taken one at a time, each run to its end before the next starts. The
  module holds the counter of the message identifiers and the two patterns, each with
  its \<open>lastIndex\<close>. The repository is seen through \<open>Container.git\<close>: the name of the
  branch, when there is one, and for a reference the commit, when it resolves; \<open>'c\<close> is
  the summary that \<open>parseState\<close> builds from a commit.
\<close>

record module_state =
  ipcSequence :: nat
  rebaseRegex_lastIndex :: nat
  rebaseCommandsRegex_lastIndex :: nat

record 'c git_service =
  getBranch :: "jstring option"
  getCommit :: "jstring \<Rightarrow> 'c option"

record rebase_entry =
  entry_index :: nat
  entry_action :: jstring
  entry_ref :: jstring
  entry_message :: jstring

record 'c rebase_state =
  branch :: jstring
  rebase_from :: jstring
  rebase_to :: jstring
  rebase_onto :: jstring
  entries :: "rebase_entry list"
  commits :: "'c list"

definition rebaseActionsMap :: "jstring \<rightharpoonup> jstring" where
  "rebaseActionsMap = map_of
     [(str ''p'', str ''pick''), (str ''pick'', str ''pick''),
      (str ''r'', str ''reword''), (str ''reword'', str ''reword''),
      (str ''e'', str ''edit''), (str ''edit'', str ''edit''),
      (str ''s'', str ''squash''), (str ''squash'', str ''squash''),
      (str ''f'', str ''fixup''), (str ''fixup'', str ''fixup''),
      (str ''b'', str ''break''), (str ''break'', str ''break''),
      (str ''d'', str ''drop''), (str ''drop'', str ''drop'')]"

text \<open>An element of a JavaScript array, \<open>undefined\<close> beyond its length, and \<open>??\<close>.\<close>

definition js_nth :: "'a list \<Rightarrow> nat \<Rightarrow> 'a option" where
  "js_nth xs i = (if i < length xs then Some (xs ! i) else None)"

definition nullish :: "'a option \<Rightarrow> 'a \<Rightarrow> 'a" where
  "nullish x d = (case x of None \<Rightarrow> d | Some v \<Rightarrow> v)"

subsection \<open>\<open>parseState\<close>\<close>

text \<open>The entry that the loop of \<open>parseState\<close> pushes for a match.\<close>

definition entry_of_match :: "regex_match \<Rightarrow> rebase_entry" where
  "entry_of_match m =
     (let action = m_array m ! 1; ref = m_array m ! 2; message = m_array m ! 3
      in \<lparr>entry_index = m_index m,
          entry_action = nullish (rebaseActionsMap action) (str ''pick''),
          entry_ref = ref,
          entry_message = message\<rparr>)"

text \<open>
  The \<open>do ... while (true)\<close> loop: \<open>exec\<close> until it returns \<open>null\<close>; every match gives an
  entry, and a commit summary when the reference resolves. The result is the entries,
  the commits and the \<open>lastIndex\<close> that the pattern is left with.
\<close>

function parse_entries ::
  "(jstring \<Rightarrow> 'c option) \<Rightarrow> jstring \<Rightarrow> nat \<Rightarrow> rebase_entry list \<times> 'c list \<times> nat" where
  "parse_entries get contents lastIndex =
     (case regex_exec rebaseCommandsRegex contents lastIndex of
        (None, lastIndex') \<Rightarrow> ([], [], lastIndex')
      | (Some m, lastIndex') \<Rightarrow>
          (case parse_entries get contents lastIndex' of
             (es, cs, lastIndex'') \<Rightarrow>
               (entry_of_match m # es,
                (case get (entry_ref (entry_of_match m)) of None \<Rightarrow> cs | Some c \<Rightarrow> c # cs),
                lastIndex'')))"
  by pat_completeness auto
termination
proof (relation "measure (\<lambda>(get, contents, lastIndex). Suc (length contents) - lastIndex)")
  show "wf (measure (\<lambda>(get :: jstring \<Rightarrow> 'c option, contents, lastIndex).
    Suc (length contents) - lastIndex))"
    by simp
next
  fix get :: "jstring \<Rightarrow> 'c option" and contents lastIndex x lastIndex' and m :: regex_match
  assume "(x, lastIndex') = regex_exec rebaseCommandsRegex contents lastIndex" "x = Some m"
  then have "regex_exec rebaseCommandsRegex contents lastIndex = (Some m, lastIndex')"
    by simp
  from rebaseCommandsRegex_exec_progress [OF this]
  have "Suc (length contents) - lastIndex' < Suc (length contents) - lastIndex"
    by arith
  then show "((get, contents, lastIndex'), (get, contents, lastIndex))
    \<in> measure (\<lambda>(get, contents, lastIndex). Suc (length contents) - lastIndex)"
    by simp
qed

declare parse_entries.simps [simp del]

definition parseState ::
  "'c git_service \<Rightarrow> text_document \<Rightarrow> module_state \<Rightarrow> 'c rebase_state \<times> module_state" where
  "parseState git document ms =
     (let contents = getText document;
          (match, li) = regex_exec rebaseRegex contents (rebaseRegex_lastIndex ms);
          array = (case match of Some m \<Rightarrow> m_array m | None \<Rightarrow> [[], [], []]);
          from = js_nth array 1; to = js_nth array 2; onto = js_nth array 3;
          (es, cs, li') =
            parse_entries (getCommit git) contents (rebaseCommandsRegex_lastIndex ms)
      in (\<lparr>branch = nullish (getBranch git) [],
           rebase_from = nullish from [],
           rebase_to = nullish to [],
           rebase_onto = nullish onto [],
           entries = es,
           commits = cs\<rparr>,
          ms\<lparr>rebaseRegex_lastIndex := li, rebaseCommandsRegex_lastIndex := li'\<rparr>))"

subsection \<open>The notification of the webview\<close>

text \<open>
  Modelled from the spec: the protocol module is not among the sources. Its messages carry
  an identifier, a method and parameters; \<open>rebase/didChange\<close> carries the whole state,
  \<open>rebase/changeEntry\<close> a reference and an action, \<open>rebase/moveEntry\<close> a reference and
  the direction, \<open>rebase/start\<close> and \<open>rebase/abort\<close> nothing. \<open>onIpcCommand\<close> hands the
  parameters of the message to its handler.
\<close>

record 'c notification =
  msg_id :: jstring
  msg_method :: jstring
  msg_params :: "'c rebase_state"

datatype ipc_message =
    RebaseDidStart
  | RebaseDidAbort
  | RebaseDidChangeEntry jstring jstring
  | RebaseDidMoveEntry jstring bool
  | OtherMessage

definition parseDocumentAndSendChange ::
  "'c git_service \<Rightarrow> text_document \<Rightarrow> module_state \<Rightarrow> 'c notification \<times> module_state" where
  "parseDocumentAndSendChange git document ms =
     (let (state, ms') = parseState git document ms;
          (id, n) = nextIpcId (ipcSequence ms')
      in (\<lparr>msg_id = id, msg_method = str ''rebase/didChange'', msg_params = state\<rparr>,
          ms'\<lparr>ipcSequence := n\<rparr>))"

subsection \<open>\<open>onMessageReceived\<close>\<close>

text \<open>\<open>Array.prototype.findIndex\<close>: the first index whose element satisfies, or -1.\<close>

fun findIndex :: "('a \<Rightarrow> bool) \<Rightarrow> 'a list \<Rightarrow> int" where
  "findIndex P [] = - 1"
| "findIndex P (x # xs) =
     (if P x then 0 else (let i = findIndex P xs in if i < 0 then - 1 else i + 1))"

text \<open>
  The handler of \<open>rebase/changeEntry\<close>, up to the call of \<open>workspace.applyEdit\<close>: the edit
  that it builds, or nothing when it returns before. The state is parsed afresh.
\<close>

definition changeEntry ::
  "'c git_service \<Rightarrow> text_document \<Rightarrow> module_state \<Rightarrow> jstring \<Rightarrow> jstring \<Rightarrow>
     text_edit list option \<times> module_state" where
  "changeEntry git document ms ref action =
     (let (state, ms') = parseState git document ms
      in case find (\<lambda>e. entry_ref e = ref) (entries state) of
           None \<Rightarrow> (None, ms')
         | Some entry \<Rightarrow>
             (let start = positionAt document (entry_index entry);
                  range = validateRange document
                    (new_Range (Position (line start) 0) (Position (line start) MAX_SAFE_INTEGER))
              in (Some [edit_replace range
                    (action @ str '' '' @ entry_ref entry @ str '' '' @ entry_message entry)],
                  ms')))"

text \<open>
  The handler of \<open>rebase/moveEntry\<close>, up to the call of \<open>workspace.applyEdit\<close>. The
  position of the insertion is built from a line number that is negative when the line
  of the entry is 0 and the entry moves up; \<open>new Position\<close> throws then.
\<close>

definition moveEntry ::
  "'c git_service \<Rightarrow> text_document \<Rightarrow> module_state \<Rightarrow> jstring \<Rightarrow> bool \<Rightarrow>
     error + (text_edit list option \<times> module_state)" where
  "moveEntry git document ms ref down =
     (let (state, ms') = parseState git document ms
      in case find (\<lambda>e. entry_ref e = ref) (entries state) of
           None \<Rightarrow> Inr (None, ms')
         | Some entry \<Rightarrow>
             (let index = findIndex (\<lambda>e. entry_ref e = ref) (entries state)
              in if (\<not> down \<and> index = 0) \<or> (down \<and> index = int (length (entries state)) - 1)
                 then Inr (None, ms')
                 else
                   (let start = positionAt document (entry_index entry);
                        range = validateRange document
                          (new_Range (Position (line start) 0) (Position (line start + 1) 0))
                    in case new_Position
                              (int (line (range_start range)) + (if down then 2 else - 1)) 0 of
                         Inl err \<Rightarrow> Inl err
                       | Inr p \<Rightarrow>
                           Inr (Some [edit_delete range,
                                  edit_insert p
                                    (entry_action entry @ str '' '' @ entry_ref entry @ str '' '' @
                                     entry_message entry @ [10])],
                                ms'))))"

text \<open>
  What the host is asked to do besides the edit: save the document, close the editor.
\<close>

datatype host_command = Save | CloseActiveEditor

definition onMessageReceived ::
  "'c git_service \<Rightarrow> text_document \<Rightarrow> module_state \<Rightarrow> ipc_message \<Rightarrow>
     error + (text_document \<times> module_state \<times> host_command list)" where
  "onMessageReceived git document ms e =
     (case e of
        RebaseDidStart \<Rightarrow> Inr (document, ms, [Save, CloseActiveEditor])
      | RebaseDidAbort \<Rightarrow>
          Inr (applyEdit document
                 [edit_replace (new_Range (Position 0 0) (Position (lineCount document) 0)) []],
               ms, [Save, CloseActiveEditor])
      | RebaseDidChangeEntry ref action \<Rightarrow>
          (case changeEntry git document ms ref action of
             (None, ms') \<Rightarrow> Inr (document, ms', [])
           | (Some edit, ms') \<Rightarrow> Inr (applyEdit document edit, ms', []))
      | RebaseDidMoveEntry ref down \<Rightarrow>
          (case moveEntry git document ms ref down of
             Inl err \<Rightarrow> Inl err
           | Inr (None, ms') \<Rightarrow> Inr (document, ms', [])
           | Inr (Some edit, ms') \<Rightarrow> Inr (applyEdit document edit, ms', []))
      | OtherMessage \<Rightarrow> Inr (document, ms, []))"

text \<open>The state of the module when it is loaded, and a repository that resolves nothing.\<close>

definition initial_state :: module_state where
  "initial_state = \<lparr>ipcSequence = 0, rebaseRegex_lastIndex = 0, rebaseCommandsRegex_lastIndex = 0\<rparr>"

definition no_git :: "unit git_service" where
  "no_git = \<lparr>getBranch = None, getCommit = (\<lambda>_. None)\<rparr>"

text \<open>The document of a text with line feeds.\<close>

definition document_of :: "jstring \<Rightarrow> text_document" where
  "document_of s = \<lparr>doc_lines = split_lines s, doc_eol = LF\<rparr>"

section \<open>The message identifier: properties\<close>

lemma number_toString_digit: "n < 10 \<Longrightarrow> number_toString n = [48 + n]"
  by (subst number_toString.simps) simp

lemma number_toString_ne_Nil: "number_toString n \<noteq> []"
  by (subst number_toString.simps) simp

lemma number_toString_eq_zero_iff: "number_toString n = [48] \<longleftrightarrow> n = 0"
proof
  assume a: "number_toString n = [48]"
  show "n = 0"
  proof (cases "n < 10")
    case True
    with a show ?thesis by (subst (asm) number_toString.simps) simp
  next
    case False
    with a have "number_toString (n div 10) @ [48 + n mod 10] = [48]"
      by (subst (asm) number_toString.simps) simp
    then have "number_toString (n div 10) = []" by simp
    with number_toString_ne_Nil show ?thesis by blast
  qed
next
  assume "n = 0"
  then show "number_toString n = [48]" by (subst number_toString.simps) simp
qed

lemma ipcSequence_after_range: "ipcSequence_after n \<le> MAX_SAFE_INTEGER"
  by (induction n) (auto simp: nextIpcId_def MAX_SAFE_INTEGER_def Let_def)

lemma ipcSequence_after_pos: "1 \<le> ipcSequence_after (Suc n)"
  by (simp add: nextIpcId_def Let_def)

text \<open>
  Claim C9. The identifiers grow by one from call to call until the counter is
  \<open>MAX_SAFE_INTEGER\<close>; the call after that sets it to 1. After any number of calls the
  counter that the next call leaves is at least 1, so no identifier is \<open>host:0\<close>, and the
  first identifier is \<open>host:1\<close>.
\<close>

theorem nextIpcId_sequence:
  "nextIpcId (ipcSequence_after 0) = (str ''host:1'', 1) \<and>
   ipcSequence_after n \<le> MAX_SAFE_INTEGER \<and>
   snd (nextIpcId (ipcSequence_after n)) =
     (if ipcSequence_after n = MAX_SAFE_INTEGER then 1 else ipcSequence_after n + 1) \<and>
   (ipcSequence_after n < snd (nextIpcId (ipcSequence_after n)) \<or>
    ipcSequence_after n = MAX_SAFE_INTEGER) \<and>
   1 \<le> snd (nextIpcId (ipcSequence_after n)) \<and>
   snd (nextIpcId (ipcSequence_after n)) \<le> MAX_SAFE_INTEGER \<and>
   fst (nextIpcId (ipcSequence_after n)) =
     str ''host:'' @ number_toString (snd (nextIpcId (ipcSequence_after n))) \<and>
   fst (nextIpcId (ipcSequence_after n)) \<noteq> str ''host:0''"
proof -
  let ?s = "ipcSequence_after n"
  have first: "nextIpcId (ipcSequence_after 0) = (str ''host:1'', 1)"
    by (simp add: nextIpcId_def MAX_SAFE_INTEGER_def number_toString_digit)
  have range: "?s \<le> MAX_SAFE_INTEGER" by (rule ipcSequence_after_range)
  have step: "snd (nextIpcId ?s) = (if ?s = MAX_SAFE_INTEGER then 1 else ?s + 1)"
    by (simp add: nextIpcId_def Let_def)
  have pos: "1 \<le> snd (nextIpcId ?s)" by (simp add: step)
  have le: "snd (nextIpcId ?s) \<le> MAX_SAFE_INTEGER"
    using ipcSequence_after_range [of "Suc n"] by simp
  have up: "?s < snd (nextIpcId ?s) \<or> ?s = MAX_SAFE_INTEGER" by (simp add: step)
  have id: "fst (nextIpcId ?s) = str ''host:'' @ number_toString (snd (nextIpcId ?s))"
    by (simp add: nextIpcId_def Let_def)
  have "number_toString (snd (nextIpcId ?s)) \<noteq> [48]"
    using pos by (simp add: number_toString_eq_zero_iff)
  with id have ne: "fst (nextIpcId ?s) \<noteq> str ''host:0''" by simp
  from first range step up pos le id ne show ?thesis by blast
qed

theorem nextIpcId_sequence_witness:
  "nextIpcId 0 = (str ''host:1'', 1) \<and> nextIpcId 1 = (str ''host:2'', 2) \<and>
   nextIpcId MAX_SAFE_INTEGER = (str ''host:1'', 1) \<and>
   fst (nextIpcId (ipcSequence_after 2)) \<noteq> str ''host:0''"
proof -
  have a: "nextIpcId 0 = (str ''host:1'', 1)"
    by (simp add: nextIpcId_def MAX_SAFE_INTEGER_def number_toString_digit)
  have b: "nextIpcId 1 = (str ''host:2'', 2)"
    by (simp add: nextIpcId_def MAX_SAFE_INTEGER_def number_toString_digit)
  have c: "nextIpcId MAX_SAFE_INTEGER = (str ''host:1'', 1)"
    by (simp add: nextIpcId_def number_toString_digit)
  from a b c nextIpcId_sequence [of 2] show ?thesis by blast
qed

section \<open>Evaluating the definitions on a given text\<close>

text \<open>
  The simplifier evaluates a pattern on a given text by unfolding the definitions. The
  congruence rules keep it from rewriting a continuation before the matcher reaches it.
\<close>

lemma re_class_cong: "r = r' \<Longrightarrow> re_class P r k = re_class P r' k" by simp
lemma re_opt_cong: "r = r' \<Longrightarrow> re_opt P r k = re_opt P r' k" by simp
lemma re_lit_cong: "r = r' \<Longrightarrow> re_lit w r k = re_lit w r' k" by simp
lemma re_lit_i_cong: "r = r' \<Longrightarrow> re_lit_i w r k = re_lit_i w r' k" by simp
lemma re_alt_cong: "r = r' \<Longrightarrow> re_alt ws r k = re_alt ws r' k" by simp
lemma re_plus_lazy_cong: "r = r' \<Longrightarrow> re_plus_lazy P acc r k = re_plus_lazy P acc r' k" by simp
lemma re_star_greedy_cong: "r = r' \<Longrightarrow> re_star_greedy P acc r k = re_star_greedy P acc r' k" by simp
lemma first_some_cong: "xs = xs' \<Longrightarrow> first_some f xs = first_some f xs'" by simp

lemmas re_congs = re_class_cong re_opt_cong re_lit_cong re_lit_i_cong re_alt_cong
  re_plus_lazy_cong re_star_greedy_cong first_some_cong

lemmas re_defs = re_class_def re_opt_def re_lit_def re_lit_i_def re_alt_def re_bol_def re_eol_def
  is_line_terminator_def is_white_space_def is_dot_def is_hex_def is_hex_i_def canonicalize_def
  matched_def m_end_def command_tokens_def regex_exec_def rebaseCommandsRegex_def rebaseRegex_def

lemmas doc_defs = document_of_def getText_def eol_string_def lineCount_def positionAt_def
  validatePosition_def validateRange_def new_Range_def isBefore_def new_Position_def
  edit_replace_def edit_delete_def edit_insert_def apply_text_edit_def applyEdit_def
  valid_document_def

lemmas parse_defs = parseState_def parse_entries.simps entry_of_match_def rebaseActionsMap_def
  js_nth_def nullish_def initial_state_def no_git_def

lemmas handler_defs = onMessageReceived_def changeEntry_def moveEntry_def MAX_SAFE_INTEGER_def

section \<open>\<open>parseState\<close>: properties\<close>

lemma entries_parseState:
  "entries (fst (parseState git document ms)) =
     fst (parse_entries (getCommit git) (getText document) (rebaseCommandsRegex_lastIndex ms))"
  by (simp add: parseState_def Let_def split_beta)

lemma parse_entries_sound:
  "e \<in> set (fst (parse_entries get s lastIndex)) \<Longrightarrow>
     \<exists>i m. lastIndex \<le> i \<and> rebaseCommandsRegex s i = Some m \<and> e = entry_of_match m"
proof (induction get s lastIndex rule: parse_entries.induct)
  case (1 get contents lastIndex)
  show ?case
  proof (cases "regex_exec rebaseCommandsRegex contents lastIndex")
    case (Pair x lastIndex')
    show ?thesis
    proof (cases x)
      case None
      with Pair "1.prems" show ?thesis
        by (simp add: parse_entries.simps [of get contents lastIndex])
    next
      case (Some m)
      with Pair have ex: "regex_exec rebaseCommandsRegex contents lastIndex = (Some m, lastIndex')"
        by simp
      from regex_exec_SomeD [OF ex] obtain i where
        i: "lastIndex \<le> i" "rebaseCommandsRegex contents i = Some m"
        by blast
      from rebaseCommandsRegex_exec_progress [OF ex] have lt: "lastIndex < lastIndex'"
        by simp
      from "1.prems" ex have
        "e = entry_of_match m \<or> e \<in> set (fst (parse_entries get contents lastIndex'))"
        by (auto simp: parse_entries.simps [of get contents lastIndex] split: prod.splits)
      then show ?thesis
      proof
        assume "e = entry_of_match m"
        with i show ?thesis by blast
      next
        assume "e \<in> set (fst (parse_entries get contents lastIndex'))"
        from "1.IH" [OF Pair [symmetric] Some this] obtain j m' where
          "lastIndex' \<le> j" "rebaseCommandsRegex contents j = Some m'" "e = entry_of_match m'"
          by blast
        with lt show ?thesis by (intro exI [of _ j] exI [of _ m']) simp
      qed
    qed
  qed
qed

lemma parse_entries_lastIndex:
  "snd (snd (parse_entries get s lastIndex)) = 0"
proof (induction get s lastIndex rule: parse_entries.induct)
  case (1 get contents lastIndex)
  show ?case
  proof (cases "regex_exec rebaseCommandsRegex contents lastIndex")
    case (Pair x lastIndex')
    show ?thesis
    proof (cases x)
      case None
      with Pair regex_exec_None [of rebaseCommandsRegex contents lastIndex lastIndex']
      show ?thesis by (simp add: parse_entries.simps [of get contents lastIndex])
    next
      case (Some m)
      obtain es cs l where r: "parse_entries get contents lastIndex' = (es, cs, l)"
        by (cases "parse_entries get contents lastIndex'") auto
      with "1.IH" [OF Pair [symmetric] Some] have "l = 0" by simp
      with Pair Some r show ?thesis
        by (simp add: parse_entries.simps [of get contents lastIndex])
    qed
  qed
qed

lemma parseState_commands_lastIndex:
  "rebaseCommandsRegex_lastIndex (snd (parseState git document ms)) = 0"
  using parse_entries_lastIndex [of "getCommit git" "getText document" "rebaseCommandsRegex_lastIndex ms"]
  by (simp add: parseState_def Let_def split_beta)

lemma parse_entries_get:
  "fst (parse_entries get s lastIndex) = fst (parse_entries get' s lastIndex)"
proof (induction get s lastIndex rule: parse_entries.induct)
  case (1 get contents lastIndex)
  show ?case
  proof (cases "regex_exec rebaseCommandsRegex contents lastIndex")
    case (Pair x lastIndex')
    show ?thesis
    proof (cases x)
      case None
      with Pair show ?thesis
        by (simp add: parse_entries.simps [of _ contents lastIndex])
    next
      case (Some m)
      obtain es cs l where r: "parse_entries get contents lastIndex' = (es, cs, l)"
        by (cases "parse_entries get contents lastIndex'") auto
      obtain es' cs' l' where r': "parse_entries get' contents lastIndex' = (es', cs', l')"
        by (cases "parse_entries get' contents lastIndex'") auto
      from "1.IH" [OF Pair [symmetric] Some] r r' have "es = es'" by simp
      with Pair Some r r' show ?thesis
        by (simp add: parse_entries.simps [of _ contents lastIndex])
    qed
  qed
qed

text \<open>
  The entries depend on the text alone, as long as the command pattern starts at 0, and
  every call of \<open>parseState\<close> leaves it there.
\<close>

lemma entries_deterministic:
  assumes "getText document = getText document'"
      and "rebaseCommandsRegex_lastIndex ms = rebaseCommandsRegex_lastIndex ms'"
  shows "entries (fst (parseState git document ms)) = entries (fst (parseState git' document' ms'))"
  using assms parse_entries_get [of "getCommit git" _ _ "getCommit git'"]
  by (simp add: entries_parseState)

section \<open>Requests that name no entry\<close>

text \<open>
  Claim C7. When the reference of a \<open>rebase/changeEntry\<close> or \<open>rebase/moveEntry\<close> request
  is the reference of no entry of the state parsed for the request, the handler returns
  before it builds an edit, and the document is left as it is.
\<close>

theorem unknown_ref_is_ignored:
  assumes "ref \<notin> entry_ref ` set (entries (fst (parseState git document ms)))"
  shows "changeEntry git document ms ref action = (None, snd (parseState git document ms)) \<and>
         moveEntry git document ms ref down = Inr (None, snd (parseState git document ms)) \<and>
         onMessageReceived git document ms (RebaseDidChangeEntry ref action) =
           Inr (document, snd (parseState git document ms), []) \<and>
         onMessageReceived git document ms (RebaseDidMoveEntry ref down) =
           Inr (document, snd (parseState git document ms), [])"
proof -
  from assms have f: "find (\<lambda>e. entry_ref e = ref) (entries (fst (parseState git document ms))) = None"
    by (auto simp: find_None_iff)
  then have c: "changeEntry git document ms ref action = (None, snd (parseState git document ms))"
    by (simp add: changeEntry_def split_beta)
  from f have m: "moveEntry git document ms ref down = Inr (None, snd (parseState git document ms))"
    by (simp add: moveEntry_def split_beta)
  from c m show ?thesis by (simp add: onMessageReceived_def)
qed

definition D7 :: text_document where
  "D7 = document_of (str ''pick abc m\<newline>'')"

lemma parse_D7:
  "parseState no_git D7 initial_state =
     (\<lparr>branch = [], rebase_from = [], rebase_to = [], rebase_onto = [],
       entries = [\<lparr>entry_index = 0, entry_action = str ''pick'', entry_ref = str ''abc'',
                   entry_message = str ''m''\<rparr>],
       commits = []\<rparr>, initial_state)"
  by (simp add: D7_def re_defs doc_defs parse_defs Let_def cong: re_congs)

theorem unknown_ref_is_ignored_witness:
  "onMessageReceived no_git D7 initial_state (RebaseDidChangeEntry (str ''def'') (str ''drop'')) =
     Inr (D7, initial_state, []) \<and>
   onMessageReceived no_git D7 initial_state (RebaseDidMoveEntry (str ''def'') True) =
     Inr (D7, initial_state, [])"
  using unknown_ref_is_ignored [of "str ''def''" no_git D7 initial_state "str ''drop''" True]
  by (simp add: parse_D7)

section \<open>Texts without a header\<close>

text \<open>No index of the text where the header pattern, or the command pattern, matches.\<close>

definition header_absent :: "jstring \<Rightarrow> bool" where
  "header_absent s \<longleftrightarrow> list_all (\<lambda>i. rebaseRegex s i = None) [0 ..< Suc (length s)]"

definition commands_absent :: "jstring \<Rightarrow> bool" where
  "commands_absent s \<longleftrightarrow> list_all (\<lambda>i. rebaseCommandsRegex s i = None) [0 ..< Suc (length s)]"

lemma regex_exec_absent:
  assumes "list_all (\<lambda>i. re s i = None) [0 ..< Suc (length s)]"
  shows "regex_exec re s lastIndex = (None, 0)"
proof -
  from assms have "\<forall>i\<in>set [lastIndex ..< Suc (length s)]. re s i = None"
    by (auto simp: list_all_iff simp del: upt_Suc)
  then have "first_some (re s) [lastIndex ..< Suc (length s)] = None"
    by (simp only: first_some_None_iff)
  then show ?thesis by (simp add: regex_exec_def del: upt_Suc)
qed

lemma header_parseState:
  "rebase_from (fst (parseState git document ms)) =
     (case fst (regex_exec rebaseRegex (getText document) (rebaseRegex_lastIndex ms)) of
        None \<Rightarrow> [] | Some m \<Rightarrow> nullish (js_nth (m_array m) 1) [])"
  "rebase_to (fst (parseState git document ms)) =
     (case fst (regex_exec rebaseRegex (getText document) (rebaseRegex_lastIndex ms)) of
        None \<Rightarrow> [] | Some m \<Rightarrow> nullish (js_nth (m_array m) 2) [])"
  "rebase_onto (fst (parseState git document ms)) =
     (case fst (regex_exec rebaseRegex (getText document) (rebaseRegex_lastIndex ms)) of
        None \<Rightarrow> [] | Some m \<Rightarrow> nullish (js_nth (m_array m) 3) [])"
  by (simp_all add: parseState_def Let_def split_beta js_nth_def nullish_def split: option.splits)

text \<open>
  Claim C8. \<open>parseState\<close> returns a state for every text: nothing in it throws. When the
  header pattern matches nowhere in the text, the three header fields are empty strings,
  and the entries are those that the command pattern finds; when that pattern matches
  nowhere either, the list of entries is empty.
\<close>

theorem parseState_falls_back:
  "\<exists>state ms'. parseState git document ms = (state, ms') \<and>
     entries state =
       fst (parse_entries (getCommit git) (getText document) (rebaseCommandsRegex_lastIndex ms)) \<and>
     (header_absent (getText document) \<longrightarrow>
        rebase_from state = [] \<and> rebase_to state = [] \<and> rebase_onto state = []) \<and>
     (commands_absent (getText document) \<longrightarrow> entries state = [])"
proof -
  obtain state ms' where p: "parseState git document ms = (state, ms')"
    by (cases "parseState git document ms")
  then have s: "state = fst (parseState git document ms)" by simp
  have e: "entries state =
      fst (parse_entries (getCommit git) (getText document) (rebaseCommandsRegex_lastIndex ms))"
    unfolding s by (rule entries_parseState)
  have h: "rebase_from state = [] \<and> rebase_to state = [] \<and> rebase_onto state = []"
    if "header_absent (getText document)"
  proof -
    from that have "regex_exec rebaseRegex (getText document) (rebaseRegex_lastIndex ms) = (None, 0)"
      unfolding header_absent_def by (rule regex_exec_absent)
    then show ?thesis unfolding s by (simp add: header_parseState)
  qed
  have c: "entries state = []" if "commands_absent (getText document)"
  proof -
    from that have "regex_exec rebaseCommandsRegex (getText document)
        (rebaseCommandsRegex_lastIndex ms) = (None, 0)"
      unfolding commands_absent_def by (rule regex_exec_absent)
    then show ?thesis unfolding e
      by (simp add: parse_entries.simps [of _ _ "rebaseCommandsRegex_lastIndex ms"])
  qed
  from p e h c show ?thesis by blast
qed

definition D8 :: text_document where
  "D8 = document_of (str ''# no plan\<newline>x a b'')"

lemma absent_D8: "header_absent (getText D8) \<and> commands_absent (getText D8)"
  by (simp add: D8_def header_absent_def commands_absent_def re_defs doc_defs cong: re_congs)

theorem parseState_falls_back_witness:
  "header_absent (getText D8) \<and> commands_absent (getText D8) \<and>
   rebase_from (fst (parseState no_git D8 initial_state)) = [] \<and>
   rebase_to (fst (parseState no_git D8 initial_state)) = [] \<and>
   rebase_onto (fst (parseState no_git D8 initial_state)) = [] \<and>
   entries (fst (parseState no_git D8 initial_state)) = [] \<and>
   header_absent (getText D7) \<and>
   rebase_from (fst (parseState no_git D7 initial_state)) = [] \<and>
   entries (fst (parseState no_git D7 initial_state)) =
     [\<lparr>entry_index = 0, entry_action = str ''pick'', entry_ref = str ''abc'',
       entry_message = str ''m''\<rparr>]"
proof -
  have h7: "header_absent (getText D7)"
    by (simp add: D7_def header_absent_def re_defs doc_defs cong: re_congs)
  from parseState_falls_back [of no_git D8 initial_state] absent_D8
  have 8: "rebase_from (fst (parseState no_git D8 initial_state)) = [] \<and>
   rebase_to (fst (parseState no_git D8 initial_state)) = [] \<and>
   rebase_onto (fst (parseState no_git D8 initial_state)) = [] \<and>
   entries (fst (parseState no_git D8 initial_state)) = []"
    by auto
  from parseState_falls_back [of no_git D7 initial_state] h7
  have 7: "rebase_from (fst (parseState no_git D7 initial_state)) = []"
    by auto
  from 8 7 h7 absent_D8 show ?thesis by (simp add: parse_D7)
qed

section \<open>Edits on a document\<close>

lemma applyEdit_single:
  "applyEdit document [e] =
     apply_text_edit document (TextEdit (validateRange document (edit_range e)) (newText e))"
  by (simp add: applyEdit_def)

lemma validatePosition_idem:
  "validatePosition document (validatePosition document p) = validatePosition document p"
  by (auto simp: validatePosition_def last_conv_nth)

lemma validateRange_idem:
  "validateRange document (validateRange document r) = validateRange document r"
  by (simp add: validateRange_def validatePosition_idem)

lemma applyEdit_replace:
  "applyEdit document [edit_replace r t] =
     (let v = validateRange document r; ls = doc_lines document
      in document\<lparr>doc_lines :=
           take (line (range_start v)) ls @
           split_lines (take (character (range_start v)) (ls ! line (range_start v)) @ t @
                        drop (character (range_end v)) (ls ! line (range_end v))) @
           drop (Suc (line (range_end v))) ls\<rparr>)"
  by (simp add: applyEdit_single edit_replace_def apply_text_edit_def validateRange_idem Let_def)

section \<open>Abort\<close>

text \<open>
  Claim C4. The handler of \<open>rebase/abort\<close> replaces the range from the start of the
  document to the line after the last by the empty string. Whatever the lines of the
  document are, one empty line is left, so the text of the document is empty; the
  document is then saved and the editor closed.
\<close>

theorem abort_empties_document:
  assumes "doc_lines document \<noteq> []"
  shows "onMessageReceived git document ms RebaseDidAbort =
           Inr (document\<lparr>doc_lines := [[]]\<rparr>, ms, [Save, CloseActiveEditor]) \<and>
         getText (document\<lparr>doc_lines := [[]]\<rparr>) = []"
proof -
  let ?ls = "doc_lines document"
  let ?n = "length ?ls"
  from assms have n: "0 < ?n" by simp
  then have r: "new_Range (Position 0 0) (Position (lineCount document) 0) =
      Range (Position 0 0) (Position ?n 0)"
    by (simp add: new_Range_def isBefore_def lineCount_def)
  from assms have v: "validateRange document (Range (Position 0 0) (Position ?n 0)) =
      Range (Position 0 0) (Position (?n - 1) (length (last ?ls)))"
    by (simp add: validateRange_def validatePosition_def)
  from assms have l: "?ls ! (?n - 1) = last ?ls" by (simp add: last_conv_nth)
  from n have d: "drop (Suc (?n - 1)) ?ls = []" by simp
  have "applyEdit document [edit_replace (Range (Position 0 0) (Position ?n 0)) []] =
      document\<lparr>doc_lines := [[]]\<rparr>"
    unfolding applyEdit_replace v by (simp add: Let_def l d del: One_nat_def)
  with r show ?thesis by (simp add: onMessageReceived_def getText_def)
qed

definition D4 :: text_document where
  "D4 = document_of
     (str ''pick abc one\<newline>pick def two\<newline>\<newline># Rebase abc..def onto 123 (2 commands)\<newline>'')"

theorem abort_empties_document_witness:
  "doc_lines D4 \<noteq> [] \<and> getText D4 \<noteq> [] \<and>
   onMessageReceived no_git D4 initial_state RebaseDidAbort =
     Inr (\<lparr>doc_lines = [[]], doc_eol = LF\<rparr>, initial_state, [Save, CloseActiveEditor]) \<and>
   getText \<lparr>doc_lines = [[]], doc_eol = LF\<rparr> = []"
proof -
  have a: "doc_lines D4 \<noteq> []" by (simp add: D4_def document_of_def)
  have b: "getText D4 \<noteq> []" by (simp add: D4_def document_of_def getText_def eol_string_def)
  have c: "D4\<lparr>doc_lines := [[]]\<rparr> = \<lparr>doc_lines = [[]], doc_eol = LF\<rparr>"
    by (simp add: D4_def document_of_def)
  from abort_empties_document [OF a, of no_git initial_state] a b show ?thesis
    by (simp add: c)
qed

section \<open>The entries in the text\<close>

lemma command_tokens_mapped:
  "tok \<in> set command_tokens \<Longrightarrow> rebaseActionsMap tok \<noteq> None"
  by (auto simp: command_tokens_def rebaseActionsMap_def)

lemma entry_of_match_array:
  "entry_of_match \<lparr>m_index = i, m_array = [x, action, ref, message]\<rparr> =
     \<lparr>entry_index = i, entry_action = nullish (rebaseActionsMap action) (str ''pick''),
      entry_ref = ref, entry_message = message\<rparr>"
  by (simp add: entry_of_match_def)

text \<open>
  Every entry of a parsed state stands in the text where its index says: an optional
  white space, a command word that the table maps to the action of the entry, a white
  space, the reference, a white space and the message, up to the end of a line.
\<close>

lemma entry_in_text:
  assumes "e \<in> set (entries (fst (parseState git document ms)))"
  shows "\<exists>lead tok w1 w2 rest.
           re_bol (getText document) (entry_index e) \<and>
           drop (entry_index e) (getText document) =
             lead @ tok @ [w1] @ entry_ref e @ [w2] @ entry_message e @ rest \<and>
           (lead = [] \<or> (\<exists>c. lead = [c] \<and> is_white_space c)) \<and>
           tok \<in> set command_tokens \<and> rebaseActionsMap tok = Some (entry_action e) \<and>
           is_white_space w1 \<and> entry_ref e \<noteq> [] \<and> (\<forall>c\<in>set (entry_ref e). is_hex c) \<and>
           is_white_space w2 \<and> (\<forall>c\<in>set (entry_message e). is_dot c) \<and> re_eol rest"
proof -
  let ?s = "getText document"
  from assms have "e \<in> set (fst (parse_entries (getCommit git) ?s (rebaseCommandsRegex_lastIndex ms)))"
    by (simp add: entries_parseState)
  from parse_entries_sound [OF this] obtain i m where
    m: "rebaseCommandsRegex ?s i = Some m" "e = entry_of_match m"
    by blast
  from rebaseCommandsRegex_SomeD [OF m(1)] obtain lead tok w1 ref w2 message rest where
    d: "re_bol ?s i" "drop i ?s = lead @ tok @ [w1] @ ref @ [w2] @ message @ rest"
       "lead = [] \<or> (\<exists>c. lead = [c] \<and> is_white_space c)"
       "tok \<in> set command_tokens" "is_white_space w1" "ref \<noteq> []" "\<forall>c\<in>set ref. is_hex c"
       "is_white_space w2" "\<forall>c\<in>set message. is_dot c" "re_eol rest" and
    mm: "m = \<lparr>m_index = i, m_array = [lead @ tok @ [w1] @ ref @ [w2] @ message, tok, ref, message]\<rparr>"
    by blast
  from command_tokens_mapped [OF d(4)] obtain a where a: "rebaseActionsMap tok = Some a"
    by blast
  from m(2) mm a have e: "e = \<lparr>entry_index = i, entry_action = a, entry_ref = ref, entry_message = message\<rparr>"
    by (simp add: entry_of_match_array nullish_def)
  show ?thesis
    unfolding e using d a
    by (intro exI [of _ lead] exI [of _ tok] exI [of _ w1] exI [of _ w2] exI [of _ rest]) simp
qed








definition D10 :: text_document where
  "D10 = document_of (str ''pick abc one\<newline>squash def two'')"

lemma parse_D10:
  "parseState no_git D10 initial_state =
     (\<lparr>branch = [], rebase_from = [], rebase_to = [], rebase_onto = [],
       entries = [\<lparr>entry_index = 0, entry_action = str ''pick'', entry_ref = str ''abc'',
                   entry_message = str ''one''\<rparr>,
                  \<lparr>entry_index = 13, entry_action = str ''squash'', entry_ref = str ''def'',
                   entry_message = str ''two''\<rparr>],
       commits = []\<rparr>, initial_state)"
  by (simp add: D10_def re_defs doc_defs parse_defs Let_def cong: re_congs)


section \<open>The action of an entry\<close>

text \<open>
  The action token of a line that starts with the given text: after one optional white
  space, the code units up to the next white space.
\<close>

definition line_token :: "jstring \<Rightarrow> jstring" where
  "line_token r =
     takeWhile (\<lambda>c. \<not> is_white_space c)
       (case r of [] \<Rightarrow> [] | c # r' \<Rightarrow> if is_white_space c then r' else r)"

definition rebase_actions :: "jstring list" where
  "rebase_actions =
     [str ''pick'', str ''reword'', str ''edit'', str ''squash'', str ''fixup'', str ''break'',
      str ''drop'']"

lemma command_tokens_no_space:
  "tok \<in> set command_tokens \<Longrightarrow> tok \<noteq> [] \<and> (\<forall>c\<in>set tok. \<not> is_white_space c)"
  by (auto simp: command_tokens_def is_white_space_def is_line_terminator_def)

lemma rebaseActionsMap_range:
  "rebaseActionsMap tok = Some a \<Longrightarrow> a \<in> set rebase_actions"
  by (auto simp: rebaseActionsMap_def rebase_actions_def split: if_splits)

lemma rebase_actions_no_space:
  "a \<in> set rebase_actions \<Longrightarrow> a \<noteq> [] \<and> (\<forall>c\<in>set a. \<not> is_white_space c)"
  by (auto simp: rebase_actions_def is_white_space_def is_line_terminator_def)

lemma line_token_match:
  assumes "lead = [] \<or> (\<exists>c. lead = [c] \<and> is_white_space c)"
      and "tok \<noteq> []" "\<forall>c\<in>set tok. \<not> is_white_space c" "is_white_space w"
  shows "line_token (lead @ tok @ w # r) = tok"
proof -
  from assms(2) obtain t ts where t: "tok = t # ts" by (cases tok) auto
  with assms(3) have nt: "\<not> is_white_space t" by simp
  from assms(1) t nt have
    "(case lead @ tok @ w # r of [] \<Rightarrow> [] | c # r' \<Rightarrow> if is_white_space c then r' else lead @ tok @ w # r) =
     tok @ w # r"
    by auto
  then have "line_token (lead @ tok @ w # r) = takeWhile (\<lambda>c. \<not> is_white_space c) (tok @ w # r)"
    by (simp add: line_token_def)
  also from assms(3,4) have "\<dots> = tok"
    by (simp add: takeWhile_tail)
  finally show ?thesis .
qed

text \<open>
  Claim C3, as the code has it. The command pattern lists the fourteen command words, so
  only a line whose action token is one of them gives an entry: the action of every
  entry is what the table gives for the token of its line, one of the seven actions, and
  the default \<open>pick\<close> is never taken. Where the token of a line is not one of the
  fourteen, the pattern does not match and no entry starts there.
\<close>

theorem entries_have_recognized_tokens:
  "(\<forall>e\<in>set (entries (fst (parseState git document ms))).
      line_token (drop (entry_index e) (getText document)) \<in> set command_tokens \<and>
      rebaseActionsMap (line_token (drop (entry_index e) (getText document))) =
        Some (entry_action e) \<and>
      entry_action e \<in> set rebase_actions) \<and>
   (\<forall>i. line_token (drop i (getText document)) \<notin> set command_tokens \<longrightarrow>
      rebaseCommandsRegex (getText document) i = None \<and>
      i \<notin> entry_index ` set (entries (fst (parseState git document ms))))"
proof -
  let ?s = "getText document"
  have tok: "line_token (drop i ?s) \<in> set command_tokens \<and>
      rebaseActionsMap (line_token (drop i ?s)) \<noteq> None \<and>
      entry_action (entry_of_match m) = the (rebaseActionsMap (line_token (drop i ?s))) \<and>
      entry_index (entry_of_match m) = i"
    if "rebaseCommandsRegex ?s i = Some m" for i m
  proof -
    from rebaseCommandsRegex_SomeD [OF that] obtain lead tok w1 ref w2 message rest where
      d: "drop i ?s = lead @ tok @ [w1] @ ref @ [w2] @ message @ rest"
         "lead = [] \<or> (\<exists>c. lead = [c] \<and> is_white_space c)"
         "tok \<in> set command_tokens" "is_white_space w1" and
      m: "m = \<lparr>m_index = i, m_array = [lead @ tok @ [w1] @ ref @ [w2] @ message, tok, ref, message]\<rparr>"
      by blast
    from command_tokens_no_space [OF d(3)] d(2,4) have
      "line_token (lead @ tok @ w1 # ref @ [w2] @ message @ rest) = tok"
      by (intro line_token_match) auto
    with d(1) have lt: "line_token (drop i ?s) = tok" by simp
    from command_tokens_mapped [OF d(3)] obtain a where a: "rebaseActionsMap tok = Some a"
      by blast
    from m a have "entry_action (entry_of_match m) = a" "entry_index (entry_of_match m) = i"
      by (simp_all add: entry_of_match_array nullish_def)
    with lt d(3) a show ?thesis by simp
  qed
  have ent: "line_token (drop (entry_index e) ?s) \<in> set command_tokens \<and>
      rebaseActionsMap (line_token (drop (entry_index e) ?s)) = Some (entry_action e) \<and>
      entry_action e \<in> set rebase_actions"
    if "e \<in> set (entries (fst (parseState git document ms)))" for e
  proof -
    from that have "e \<in> set (fst (parse_entries (getCommit git) ?s (rebaseCommandsRegex_lastIndex ms)))"
      by (simp add: entries_parseState)
    from parse_entries_sound [OF this] obtain i m where
      m: "rebaseCommandsRegex ?s i = Some m" "e = entry_of_match m"
      by blast
    from tok [OF m(1)] m(2) have
      t: "line_token (drop (entry_index e) ?s) \<in> set command_tokens" and
      a: "rebaseActionsMap (line_token (drop (entry_index e) ?s)) = Some (entry_action e)"
      by auto
    from rebaseActionsMap_range [OF a] t a show ?thesis by simp
  qed
  have none: "rebaseCommandsRegex ?s i = None \<and>
      i \<notin> entry_index ` set (entries (fst (parseState git document ms)))"
    if "line_token (drop i ?s) \<notin> set command_tokens" for i
  proof -
    from that tok [of i] have "rebaseCommandsRegex ?s i = None"
      by (cases "rebaseCommandsRegex ?s i") auto
    moreover from that ent have "i \<notin> entry_index ` set (entries (fst (parseState git document ms)))"
      by auto
    ultimately show ?thesis by simp
  qed
  from ent none show ?thesis by blast
qed

text \<open>
  The line \<open>x abc123 msg\<close> has the token \<open>x\<close>, which the table does not know; the
  parsed state has no entry for it, and none with the action \<open>pick\<close>.
\<close>

definition D3 :: text_document where
  "D3 = document_of (str ''x abc123 msg'')"

lemma parse_D3:
  "parseState no_git D3 initial_state =
     (\<lparr>branch = [], rebase_from = [], rebase_to = [], rebase_onto = [], entries = [],
       commits = []\<rparr>, initial_state)"
  by (simp add: D3_def re_defs doc_defs parse_defs Let_def cong: re_congs)

theorem unrecognized_token_counterexample:
  "doc_lines D3 = [str ''x abc123 msg''] \<and>
   line_token (str ''x abc123 msg'') = str ''x'' \<and>
   rebaseActionsMap (str ''x'') = None \<and>
   entries (fst (parseState no_git D3 initial_state)) = []"
  by (simp add: parse_D3)
     (simp add: D3_def document_of_def line_token_def rebaseActionsMap_def is_white_space_def
        is_line_terminator_def)

theorem entries_have_recognized_tokens_witness:
  "entries (fst (parseState no_git D10 initial_state)) =
     [\<lparr>entry_index = 0, entry_action = str ''pick'', entry_ref = str ''abc'',
        entry_message = str ''one''\<rparr>,
      \<lparr>entry_index = 13, entry_action = str ''squash'', entry_ref = str ''def'',
        entry_message = str ''two''\<rparr>] \<and>
   line_token (drop 13 (getText D10)) \<in> set command_tokens \<and>
   rebaseActionsMap (line_token (drop 13 (getText D10))) = Some (str ''squash'') \<and>
   line_token (drop 4 (getText D10)) \<notin> set command_tokens \<and>
   rebaseCommandsRegex (getText D10) 4 = None"
proof -
  have t: "line_token (drop 4 (getText D10)) \<notin> set command_tokens"
    by (simp add: D10_def doc_defs line_token_def command_tokens_def is_white_space_def
        is_line_terminator_def)
  from entries_have_recognized_tokens [of no_git D10 initial_state] t show ?thesis
    by (simp add: parse_D10)
qed

section \<open>Writing an entry again\<close>

text \<open>An entry written as a line again: \<open>`${entry.action} ${entry.ref} ${entry.message}`\<close>.\<close>

definition serialize_entry :: "rebase_entry \<Rightarrow> jstring" where
  "serialize_entry e = entry_action e @ str '' '' @ entry_ref e @ str '' '' @ entry_message e"

lemma append_same_length_eq:
  "xs @ ys = us @ vs \<Longrightarrow> length ys = length vs \<Longrightarrow> xs = us \<and> ys = vs"
  by (metis append_eq_append_conv length_append add_right_cancel)

text \<open>
  Claim C1, as the code has it. Every parsed entry stands in the text at its index as an
  optional white space, a command word, a white space, the reference, a white space and
  the message, from the start of a line to its end. The entry holds the action that the
  table gives for the command word, so writing it again as action, space, reference,
  space, message gives the text of the line from the index on exactly when the line has
  no leading white space, spells the action in full and separates with single spaces. A
  line with an alias, a leading space or another separator is not reproduced.
\<close>

theorem entry_roundtrip:
  assumes "e \<in> set (entries (fst (parseState git document ms)))"
  shows "\<exists>lead tok w1 w2 rest.
           re_bol (getText document) (entry_index e) \<and> re_eol rest \<and>
           drop (entry_index e) (getText document) =
             lead @ tok @ [w1] @ entry_ref e @ [w2] @ entry_message e @ rest \<and>
           (lead = [] \<or> (\<exists>c. lead = [c] \<and> is_white_space c)) \<and>
           rebaseActionsMap tok = Some (entry_action e) \<and>
           is_white_space w1 \<and> is_white_space w2 \<and>
           (drop (entry_index e) (getText document) = serialize_entry e @ rest \<longleftrightarrow>
              lead = [] \<and> tok = entry_action e \<and> w1 = 32 \<and> w2 = 32)"
proof -
  let ?s = "getText document"
  let ?i = "entry_index e"
  let ?a = "entry_action e"
  let ?r = "entry_ref e"
  let ?m = "entry_message e"
  from entry_in_text [OF assms] obtain lead tok w1 w2 rest where
    d: "re_bol ?s ?i" "drop ?i ?s = lead @ tok @ [w1] @ ?r @ [w2] @ ?m @ rest"
       "lead = [] \<or> (\<exists>c. lead = [c] \<and> is_white_space c)"
       "rebaseActionsMap tok = Some ?a" "is_white_space w1" "is_white_space w2" "re_eol rest"
    by blast
  from rebase_actions_no_space [OF rebaseActionsMap_range [OF d(4)]] have
    a: "?a \<noteq> []" "\<forall>c\<in>set ?a. \<not> is_white_space c"
    by simp_all
  have "drop ?i ?s = serialize_entry e @ rest \<longleftrightarrow>
      lead = [] \<and> tok = ?a \<and> w1 = 32 \<and> w2 = 32"
  proof
    assume "lead = [] \<and> tok = ?a \<and> w1 = 32 \<and> w2 = 32"
    with d(2) show "drop ?i ?s = serialize_entry e @ rest"
      by (simp add: serialize_entry_def)
  next
    assume "drop ?i ?s = serialize_entry e @ rest"
    with d(2) have "(lead @ tok @ [w1] @ ?r) @ (w2 # ?m @ rest) = (?a @ [32] @ ?r) @ (32 # ?m @ rest)"
      by (simp add: serialize_entry_def)
    from append_same_length_eq [OF this] have
      1: "lead @ tok @ [w1] @ ?r = ?a @ [32] @ ?r" and w2: "w2 = 32"
      by simp_all
    from 1 have "(lead @ tok) @ (w1 # ?r) = ?a @ (32 # ?r)" by simp
    from append_same_length_eq [OF this] have 2: "lead @ tok = ?a" and w1: "w1 = 32"
      by simp_all
    have "lead = []"
    proof (rule ccontr)
      assume "lead \<noteq> []"
      with d(3) obtain c where c: "lead = [c]" "is_white_space c" by blast
      with 2 have "c \<in> set ?a" by (metis append_Cons list.set_intros(1))
      with a(2) c(2) show False by blast
    qed
    with 2 w1 w2 show "lead = [] \<and> tok = ?a \<and> w1 = 32 \<and> w2 = 32" by simp
  qed
  with d show ?thesis by blast
qed

text \<open>
  The line \<open>p abc123 first commit\<close> uses the alias \<open>p\<close>: its entry has the action
  \<open>pick\<close>, and written again it is not the line.
\<close>

definition D1 :: text_document where
  "D1 = document_of (str ''p abc123 first commit'')"

definition E1 :: rebase_entry where
  "E1 = \<lparr>entry_index = 0, entry_action = str ''pick'', entry_ref = str ''abc123'',
          entry_message = str ''first commit''\<rparr>"

lemma parse_D1:
  "parseState no_git D1 initial_state =
     (\<lparr>branch = [], rebase_from = [], rebase_to = [], rebase_onto = [], entries = [E1],
       commits = []\<rparr>, initial_state)"
  by (simp add: D1_def E1_def re_defs doc_defs parse_defs Let_def cong: re_congs)

theorem entry_roundtrip_counterexample:
  "entries (fst (parseState no_git D1 initial_state)) = [E1] \<and>
   doc_lines D1 ! line (positionAt D1 (entry_index E1)) = str ''p abc123 first commit'' \<and>
   serialize_entry E1 = str ''pick abc123 first commit'' \<and>
   serialize_entry E1 \<noteq> doc_lines D1 ! line (positionAt D1 (entry_index E1))"
  by (simp add: parse_D1) (simp add: D1_def E1_def doc_defs serialize_entry_def)

definition E10 :: rebase_entry where
  "E10 = \<lparr>entry_index = 13, entry_action = str ''squash'', entry_ref = str ''def'',
           entry_message = str ''two''\<rparr>"

theorem entry_roundtrip_witness:
  "E10 \<in> set (entries (fst (parseState no_git D10 initial_state))) \<and>
   drop (entry_index E10) (getText D10) = serialize_entry E10 \<and>
   E1 \<in> set (entries (fst (parseState no_git D1 initial_state))) \<and>
   drop (entry_index E1) (getText D1) \<noteq> serialize_entry E1"
proof -
  have m: "E10 \<in> set (entries (fst (parseState no_git D10 initial_state)))"
    by (simp add: parse_D10 E10_def)
  have m1: "E1 \<in> set (entries (fst (parseState no_git D1 initial_state)))"
    by (simp add: parse_D1)
  have "drop (entry_index E10) (getText D10) = serialize_entry E10"
    using entry_roundtrip [OF m]
    by (simp add: D10_def E10_def doc_defs serialize_entry_def)
  moreover have "drop (entry_index E1) (getText D1) \<noteq> serialize_entry E1"
    by (simp add: D1_def E1_def doc_defs serialize_entry_def)
  ultimately show ?thesis using m m1 by simp
qed

section \<open>Parsing the same text twice\<close>

text \<open>
  The header pattern has the flag \<open>g\<close> and \<open>parseState\<close> calls \<open>exec\<close> on it once, so the
  \<open>lastIndex\<close> of a match stays for the next call.
\<close>

definition D2 :: text_document where
  "D2 = document_of
     (str ''# Rebase abc123..def456 onto 789abc onto\<newline>pick abc123 first commit\<newline>squash def456 second commit\<newline>'')"

definition S2 :: "jstring \<Rightarrow> jstring \<Rightarrow> jstring \<Rightarrow> unit rebase_state" where
  "S2 from to onto =
     \<lparr>branch = [], rebase_from = from, rebase_to = to, rebase_onto = onto,
      entries = [\<lparr>entry_index = 41, entry_action = str ''pick'', entry_ref = str ''abc123'',
                  entry_message = str ''first commit''\<rparr>,
                 \<lparr>entry_index = 66, entry_action = str ''squash'', entry_ref = str ''def456'',
                  entry_message = str ''second commit''\<rparr>],
      commits = []\<rparr>"

lemma parse_D2_first:
  "parseState no_git D2 initial_state =
     (S2 (str ''abc123'') (str ''def456'') (str ''789abc''),
      initial_state\<lparr>rebaseRegex_lastIndex := 40\<rparr>)"
  by (simp add: D2_def S2_def re_defs doc_defs parse_defs Let_def cong: re_congs)

lemma parse_D2_second:
  "parseState no_git D2 (initial_state\<lparr>rebaseRegex_lastIndex := 40\<rparr>) =
     (S2 [] [] [], initial_state)"
  by (simp add: D2_def S2_def re_defs doc_defs parse_defs Let_def cong: re_congs)

text \<open>
  Claim C2, the code at this text. The first call of \<open>parseState\<close> finds the header and
  leaves \<open>lastIndex\<close> at its end; the second call, on the same document, searches from
  there, finds no header and returns empty header fields. The entries are the same.
\<close>

theorem parseState_twice:
  "parseState no_git D2 initial_state =
     (S2 (str ''abc123'') (str ''def456'') (str ''789abc''),
      initial_state\<lparr>rebaseRegex_lastIndex := 40\<rparr>) \<and>
   parseState no_git D2 (snd (parseState no_git D2 initial_state)) = (S2 [] [] [], initial_state) \<and>
   fst (parseState no_git D2 initial_state) \<noteq>
     fst (parseState no_git D2 (snd (parseState no_git D2 initial_state)))"
  by (simp add: parse_D2_first parse_D2_second) (simp add: S2_def)

section \<open>Moves at the boundary\<close>

lemma findIndex_ge: "- 1 \<le> findIndex P xs"
  by (induction xs) (auto simp: Let_def)

lemma findIndex_first: "xs \<noteq> [] \<Longrightarrow> P (hd xs) \<Longrightarrow> findIndex P xs = 0"
  by (cases xs) auto

lemma findIndex_none: "(\<forall>x\<in>set xs. \<not> P x) \<Longrightarrow> findIndex P xs = - 1"
  by (induction xs) (auto simp: Let_def)

lemma findIndex_last:
  "xs \<noteq> [] \<Longrightarrow> P (last xs) \<Longrightarrow> (\<forall>x\<in>set (butlast xs). \<not> P x) \<Longrightarrow>
     findIndex P xs = int (length xs) - 1"
proof (induction xs)
  case Nil
  then show ?case by simp
next
  case (Cons x xs)
  show ?case
  proof (cases "xs = []")
    case True
    with Cons.prems show ?thesis by simp
  next
    case False
    with Cons.prems have "\<not> P x" "P (last xs)" "\<forall>x\<in>set (butlast xs). \<not> P x" by auto
    with False Cons.IH have "findIndex P xs = int (length xs) - 1" by simp
    with \<open>\<not> P x\<close> False show ?thesis by (simp add: Let_def)
  qed
qed

lemma find_last: "xs \<noteq> [] \<Longrightarrow> P (last xs) \<Longrightarrow> find P xs \<noteq> None"
  unfolding find_None_iff using last_in_set by blast

lemma find_first: "xs \<noteq> [] \<Longrightarrow> P (hd xs) \<Longrightarrow> find P xs \<noteq> None"
  by (cases xs) auto

text \<open>
  Claim C5, as the code has it. A request finds its entry by the reference, and finds the
  first entry that has it. A request to move up with the reference of the first entry,
  or to move down with the reference of the last entry when no entry before it has the
  same reference, builds no edit and leaves the document as it is.
\<close>

theorem moveEntry_at_the_boundary:
  assumes "es = entries (fst (parseState git document ms))" and "es \<noteq> []"
      and "(\<not> down \<and> ref = entry_ref (hd es)) \<or>
           (down \<and> ref = entry_ref (last es) \<and> ref \<notin> entry_ref ` set (butlast es))"
  shows "moveEntry git document ms ref down = Inr (None, snd (parseState git document ms)) \<and>
         onMessageReceived git document ms (RebaseDidMoveEntry ref down) =
           Inr (document, snd (parseState git document ms), [])"
proof -
  let ?P = "\<lambda>e. entry_ref e = ref"
  from assms(3) have f: "find ?P es \<noteq> None"
  proof
    assume "\<not> down \<and> ref = entry_ref (hd es)"
    with assms(2) find_first [of es ?P] show ?thesis by simp
  next
    assume "down \<and> ref = entry_ref (last es) \<and> ref \<notin> entry_ref ` set (butlast es)"
    with assms(2) find_last [of es ?P] show ?thesis by simp
  qed
  from assms(3) have g:
    "(\<not> down \<and> findIndex ?P es = 0) \<or> (down \<and> findIndex ?P es = int (length es) - 1)"
  proof
    assume "\<not> down \<and> ref = entry_ref (hd es)"
    with assms(2) findIndex_first [of es ?P] show ?thesis by simp
  next
    assume a: "down \<and> ref = entry_ref (last es) \<and> ref \<notin> entry_ref ` set (butlast es)"
    have "\<forall>x\<in>set (butlast es). \<not> ?P x"
    proof (intro ballI notI)
      fix x
      assume "x \<in> set (butlast es)" "entry_ref x = ref"
      then have "ref \<in> entry_ref ` set (butlast es)" by (metis imageI)
      with a show False by simp
    qed
    with a assms(2) findIndex_last [of es ?P] show ?thesis by simp
  qed
  from f g have m: "moveEntry git document ms ref down = Inr (None, snd (parseState git document ms))"
    unfolding assms(1) by (auto simp: moveEntry_def split_beta Let_def)
  then show ?thesis by (simp add: onMessageReceived_def)
qed

text \<open>
  In the text below the last entry has the reference of the first. A request to move
  \<open>abc\<close> down names the entry at the last index, yet the handler finds the first entry,
  at index 0, and moves it.
\<close>

definition D5 :: text_document where
  "D5 = document_of (str ''pick abc one\<newline>pick def two\<newline>pick abc three'')"

definition S5 :: "unit rebase_state" where
  "S5 = \<lparr>branch = [], rebase_from = [], rebase_to = [], rebase_onto = [],
       entries = [\<lparr>entry_index = 0, entry_action = str ''pick'', entry_ref = str ''abc'',
                   entry_message = str ''one''\<rparr>,
                  \<lparr>entry_index = 13, entry_action = str ''pick'', entry_ref = str ''def'',
                   entry_message = str ''two''\<rparr>,
                  \<lparr>entry_index = 26, entry_action = str ''pick'', entry_ref = str ''abc'',
                   entry_message = str ''three''\<rparr>],
       commits = []\<rparr>"

lemma parse_D5: "parseState no_git D5 initial_state = (S5, initial_state)"
  by (simp add: D5_def S5_def re_defs doc_defs parse_defs Let_def cong: re_congs)

theorem moveEntry_at_the_boundary_counterexample:
  "entries (fst (parseState no_git D5 initial_state)) = entries S5 \<and>
   entry_ref (last (entries S5)) = str ''abc'' \<and>
   moveEntry no_git D5 initial_state (str ''abc'') True =
     Inr (Some [edit_delete (Range (Position 0 0) (Position 1 0)),
                edit_insert (Position 2 0) (str ''pick abc one\<newline>'')], initial_state) \<and>
   onMessageReceived no_git D5 initial_state (RebaseDidMoveEntry (str ''abc'') True) =
     Inr (document_of (str ''pick def two\<newline>pick abc one\<newline>pick abc three''), initial_state, [])"
proof -
  have m: "moveEntry no_git D5 initial_state (str ''abc'') True =
     Inr (Some [edit_delete (Range (Position 0 0) (Position 1 0)),
                edit_insert (Position 2 0) (str ''pick abc one\<newline>'')], initial_state)"
    by (simp add: moveEntry_def parse_D5) (simp add: S5_def D5_def doc_defs)
  have a: "applyEdit D5 [edit_delete (Range (Position 0 0) (Position 1 0)),
                edit_insert (Position 2 0) (str ''pick abc one\<newline>'')] =
      document_of (str ''pick def two\<newline>pick abc one\<newline>pick abc three'')"
    by (simp add: D5_def doc_defs Let_def)
  from m a show ?thesis by (simp add: onMessageReceived_def parse_D5) (simp add: S5_def)
qed

theorem moveEntry_at_the_boundary_witness:
  "onMessageReceived no_git D5 initial_state (RebaseDidMoveEntry (str ''abc'') False) =
     Inr (D5, initial_state, []) \<and>
   onMessageReceived no_git D5 initial_state (RebaseDidMoveEntry (str ''def'') True) \<noteq>
     Inr (D5, initial_state, []) \<and>
   onMessageReceived no_git D10 initial_state (RebaseDidMoveEntry (str ''def'') True) =
     Inr (D10, initial_state, [])"
proof -
  have e5: "entries S5 = entries (fst (parseState no_git D5 initial_state))"
    by (simp add: parse_D5)
  have n5: "entries S5 \<noteq> []" by (simp add: S5_def)
  have c5: "(\<not> False \<and> str ''abc'' = entry_ref (hd (entries S5))) \<or>
      (False \<and> str ''abc'' = entry_ref (last (entries S5)) \<and>
       str ''abc'' \<notin> entry_ref ` set (butlast (entries S5)))"
    by (simp add: S5_def)
  from moveEntry_at_the_boundary [OF e5 n5 c5] have 1:
    "onMessageReceived no_git D5 initial_state (RebaseDidMoveEntry (str ''abc'') False) =
       Inr (D5, initial_state, [])"
    by (simp add: parse_D5)
  have e10: "entries (fst (parseState no_git D10 initial_state)) =
      entries (fst (parseState no_git D10 initial_state))"
    by simp
  have n10: "entries (fst (parseState no_git D10 initial_state)) \<noteq> []"
    by (simp add: parse_D10)
  have c10: "(\<not> True \<and> str ''def'' =
        entry_ref (hd (entries (fst (parseState no_git D10 initial_state))))) \<or>
      (True \<and> str ''def'' = entry_ref (last (entries (fst (parseState no_git D10 initial_state)))) \<and>
       str ''def'' \<notin> entry_ref ` set (butlast (entries (fst (parseState no_git D10 initial_state)))))"
    by (simp add: parse_D10)
  from moveEntry_at_the_boundary [OF e10 n10 c10] have 2:
    "onMessageReceived no_git D10 initial_state (RebaseDidMoveEntry (str ''def'') True) =
       Inr (D10, initial_state, [])"
    by (simp add: parse_D10)
  have 3: "onMessageReceived no_git D5 initial_state (RebaseDidMoveEntry (str ''def'') True) \<noteq>
     Inr (D5, initial_state, [])"
    by (simp add: onMessageReceived_def moveEntry_def parse_D5)
       (simp add: S5_def D5_def doc_defs Let_def)
  from 1 2 3 show ?thesis by simp
qed

section \<open>Changing an action twice\<close>

text \<open>
  In the text below the first line has no message and an empty line follows. The white
  space after the reference \<open>aaa\<close> matches the line feed, and the match of the entry
  \<open>abc\<close> starts at the line feed of the empty line, so its index lies in the empty line.
\<close>

definition D6 :: text_document where
  "D6 = document_of (str ''pick aaa\<newline>\<newline>pick abc m\<newline>'')"

definition D6' :: text_document where
  "D6' = document_of (str ''pick aaa\<newline>squash abc m\<newline>pick abc m\<newline>'')"

definition D6'' :: text_document where
  "D6'' = document_of (str ''pick aaa\<newline>squash abc m\<newline>squash abc m\<newline>'')"

lemma changeEntry_D6:
  "onMessageReceived no_git D6 initial_state (RebaseDidChangeEntry (str ''abc'') (str ''squash'')) =
     Inr (D6', initial_state, [])"
  by (simp add: D6_def D6'_def re_defs doc_defs parse_defs handler_defs Let_def cong: re_congs)

lemma changeEntry_D6':
  "onMessageReceived no_git D6' initial_state (RebaseDidChangeEntry (str ''abc'') (str ''squash'')) =
     Inr (D6'', initial_state, [])"
  by (simp add: D6'_def D6''_def re_defs doc_defs parse_defs handler_defs Let_def cong: re_congs)

text \<open>
  Claim C6, the code at this text. The request to change \<open>abc\<close> to \<open>squash\<close> writes the
  new line over the empty line, and the line of the entry stays. After that the first
  entry takes the new line as its message, the request finds the entry \<open>abc\<close> on its own
  line and changes that one: the second application changes the text again.
\<close>

theorem changeEntry_twice:
  "onMessageReceived no_git D6 initial_state (RebaseDidChangeEntry (str ''abc'') (str ''squash'')) =
     Inr (D6', initial_state, []) \<and>
   onMessageReceived no_git D6' initial_state (RebaseDidChangeEntry (str ''abc'') (str ''squash'')) =
     Inr (D6'', initial_state, []) \<and>
   getText D6' = str ''pick aaa\<newline>squash abc m\<newline>pick abc m\<newline>'' \<and>
   getText D6'' = str ''pick aaa\<newline>squash abc m\<newline>squash abc m\<newline>'' \<and>
   getText D6' \<noteq> getText D6''"
  using changeEntry_D6 changeEntry_D6' by (simp add: D6'_def D6''_def doc_defs)

end
